theory Spec2Isabelle
  imports Complex_Main "HOL-Library.Word"
begin

section \<open>The OTP service: data model\<close>

text \<open>
  The development embeds \<^verbatim>\<open>server.js\<close> (the two request handlers, \<^verbatim>\<open>checkRateLimits\<close>
  and \<^verbatim>\<open>generateOTP\<close>) together with the tables of \<^verbatim>\<open>schema.sql\<close> they run on.

  Conventions of the embedding.
  \<^item> A point in time is an \<open>int\<close>: milliseconds since the epoch, the unit of a JavaScript
    \<^verbatim>\<open>Date\<close>. One handler invocation sees one instant \<open>now\<close>, which stands for
    \<^verbatim>\<open>new Date()\<close>, \<^verbatim>\<open>Date.now()\<close> and the SQL \<^verbatim>\<open>NOW()\<close> alike; the rounding
    of a \<^verbatim>\<open>TIMESTAMP\<close> column to whole seconds is not modelled.
  \<^item> A table is the list of its rows in insertion order. Column comparison is equality of
    strings (a binary collation).
  \<^item> A handler is a function from the database and the request to the HTTP response and the
    database after the transaction has been committed or rolled back. A rejected SQL
    statement throws; the handler's \<^verbatim>\<open>catch\<close> rolls the transaction back.
  \<^item> The four random bytes \<^verbatim>\<open>generateOTP\<close> draws are an argument of the handler.
  \<^item> The keys of the schema are part of the model: a statement that would break the primary
    key or the unique key of \<^verbatim>\<open>otps\<close>, or the primary key of \<^verbatim>\<open>idempotency_keys\<close>, is
    rejected. The procedure \<^verbatim>\<open>CleanupExpiredData\<close> of the schema is never called by the
    server: no handler deletes a row.
\<close>

type_synonym time = int

text \<open>Table \<^verbatim>\<open>otps\<close>.\<close>

record otp_row =
  otp_id :: nat
  user_id :: string
  purpose :: string
  code :: string
  created_at :: time
  expires_at :: time
  is_used :: bool
  is_locked :: bool
  locked_until :: "time option"
  attempt_count :: int

text \<open>Tables \<^verbatim>\<open>user_rate_limits\<close> and \<^verbatim>\<open>ip_rate_limits\<close> have the same shape: the key
  column (\<^verbatim>\<open>user_id\<close> or \<^verbatim>\<open>ip_address\<close>) and the time of the request. Their
  \<^verbatim>\<open>id\<close> column is never read and is left out.\<close>

record rate_limit_row =
  scope_key :: string
  request_timestamp :: time

text \<open>The body of a 201 response, which is also the object the column
  \<^verbatim>\<open>response_data\<close> holds (the source inserts it as JSON text, and the driver reads a
  \<^verbatim>\<open>JSON\<close> column back as the parsed object).\<close>

record issue_payload =
  resp_otp_id :: string
  ttl :: int
  remaining_requests :: int

text \<open>Table \<^verbatim>\<open>idempotency_keys\<close>.\<close>

record idempotency_row =
  idempotency_key :: string
  ik_user_id :: string
  ik_purpose :: string
  response_data :: issue_payload
  ik_created_at :: time
  ik_expires_at :: time

text \<open>The database: the four tables and the \<^verbatim>\<open>AUTO_INCREMENT\<close> counter of \<^verbatim>\<open>otps\<close>,
  which a rollback does not restore.\<close>

record db =
  otps :: "otp_row list"
  user_rate_limits :: "rate_limit_row list"
  ip_rate_limits :: "rate_limit_row list"
  idempotency_keys :: "idempotency_row list"
  otps_auto_increment :: nat

definition empty_db :: db where
  "empty_db = \<lparr>otps = [], user_rate_limits = [], ip_rate_limits = [],
     idempotency_keys = [], otps_auto_increment = 1\<rparr>"

text \<open>The HTTP responses of both handlers, named after the \<^verbatim>\<open>error\<close> or \<^verbatim>\<open>message\<close>
  string of the body: 201 \<open>Created\<close>, 200 \<open>Replayed\<close> (the body \<^verbatim>\<open>JSON.parse\<close> yields for
  an idempotency key), 400, 429 with \<^verbatim>\<open>remaining_cooldown_seconds\<close>, 500, 404, 410 \<^verbatim>\<open>otp_expired\<close>,
  429 with \<^verbatim>\<open>retry_after_seconds\<close>, 410 \<^verbatim>\<open>code_used\<close>, 200
  \<^verbatim>\<open>verification_successful\<close> and 401 with \<^verbatim>\<open>attempts_remaining\<close>.\<close>

datatype response =
    Created issue_payload
  | Replayed issue_payload
  | Missing_required_fields
  | Rate_limit_exceeded int
  | Internal_server_error
  | Otp_not_found
  | Otp_expired
  | Too_many_attempts int
  | Code_used
  | Verification_successful
  | Invalid_code int

text \<open>What a statement or a helper can throw inside the \<^verbatim>\<open>try\<close> block: the 429 object
  of \<^verbatim>\<open>checkRateLimits\<close> (it has a \<^verbatim>\<open>status\<close>), a duplicate-key error of the
  database, a \<^verbatim>\<open>TypeError\<close> on reading a field of \<^verbatim>\<open>undefined\<close>, or the
  \<^verbatim>\<open>SyntaxError\<close> of \<^verbatim>\<open>JSON.parse\<close>.\<close>

datatype exn = Status_429 int | ER_DUP_ENTRY | TypeError | SyntaxError

section \<open>generateOTP\<close>

text \<open>\<^verbatim>\<open>String(n)\<close> for a natural number: its decimal digits.\<close>

definition digit_char :: "nat \<Rightarrow> char" where
  "digit_char n = ''0123456789'' ! n"

fun String_of_nat :: "nat \<Rightarrow> string" where
  "String_of_nat n =
     (if n < 10 then [digit_char n] else String_of_nat (n div 10) @ [digit_char (n mod 10)])"

declare String_of_nat.simps [simp del]

text \<open>\<^verbatim>\<open>s.padStart(n, c)\<close> with a one-character pad string.\<close>

definition padStart :: "nat \<Rightarrow> char \<Rightarrow> string \<Rightarrow> string" where
  "padStart n c s = replicate (n - length s) c @ s"

text \<open>\<^verbatim>\<open>generateOTP\<close>, as a function of the 32-bit number \<^verbatim>\<open>readUInt32BE\<close> reads from
  the four random bytes.\<close>

definition generateOTP :: "32 word \<Rightarrow> string" where
  "generateOTP randomNumber = padStart 6 (CHR ''0'') (String_of_nat (unat randomNumber mod 1000000))"

section \<open>The statements of the database\<close>

text \<open>The unique key \<^verbatim>\<open>uk_user_purpose_active (user_id, purpose, is_used, is_locked)\<close>
  and the primary key of \<^verbatim>\<open>otps\<close>.\<close>

definition uk_user_purpose_active :: "otp_row \<Rightarrow> string \<times> string \<times> bool \<times> bool" where
  "uk_user_purpose_active r = (user_id r, purpose r, is_used r, is_locked r)"

definition otps_keys_ok :: "otp_row list \<Rightarrow> bool" where
  "otps_keys_ok rows \<longleftrightarrow>
     distinct (map otp_id rows) \<and> distinct (map uk_user_purpose_active rows)"

text \<open>\<^verbatim>\<open>UPDATE otps SET ... WHERE ...\<close>: the rows that satisfy \<open>wh\<close> are changed by \<open>st\<close>.
  The statement is rejected when the table would break a key; otherwise it yields
  \<^verbatim>\<open>affectedRows\<close>, the number of rows it matched.\<close>

definition update_otps :: "(otp_row \<Rightarrow> bool) \<Rightarrow> (otp_row \<Rightarrow> otp_row) \<Rightarrow> db \<Rightarrow> exn + (nat \<times> db)" where
  "update_otps wh st d =
     (let rows' = map (\<lambda>r. if wh r then st r else r) (otps d)
      in if otps_keys_ok rows'
         then Inr (length (filter wh (otps d)), d\<lparr>otps := rows'\<rparr>)
         else Inl ER_DUP_ENTRY)"

text \<open>\<^verbatim>\<open>INSERT INTO otps (user_id, purpose, code, expires_at)\<close>: the other columns take
  their defaults, \<^verbatim>\<open>created_at\<close> the current time. The statement takes the next
  \<^verbatim>\<open>AUTO_INCREMENT\<close> value whether it succeeds or not, and yields \<^verbatim>\<open>insertId\<close>.\<close>

definition insert_otp :: "time \<Rightarrow> string \<Rightarrow> string \<Rightarrow> string \<Rightarrow> time \<Rightarrow> db \<Rightarrow> (exn + nat) \<times> db" where
  "insert_otp now u p c expiresAt d =
     (let insertId = otps_auto_increment d;
          d1 = d\<lparr>otps_auto_increment := Suc insertId\<rparr>;
          row = \<lparr>otp_id = insertId, user_id = u, purpose = p, code = c, created_at = now,
                 expires_at = expiresAt, is_used = False, is_locked = False, locked_until = None,
                 attempt_count = 0\<rparr>;
          rows' = otps d @ [row]
      in if otps_keys_ok rows' then (Inr insertId, d1\<lparr>otps := rows'\<rparr>) else (Inl ER_DUP_ENTRY, d1))"

text \<open>\<^verbatim>\<open>INSERT INTO idempotency_keys\<close>: \<^verbatim>\<open>idempotency_key\<close> is the primary key.\<close>

definition insert_idempotency_key ::
  "time \<Rightarrow> string \<Rightarrow> string \<Rightarrow> string \<Rightarrow> issue_payload \<Rightarrow> time \<Rightarrow> db \<Rightarrow> exn + db" where
  "insert_idempotency_key now k u p resp expiresAt d =
     (if k \<in> set (map idempotency_key (idempotency_keys d)) then Inl ER_DUP_ENTRY
      else Inr (d\<lparr>idempotency_keys := idempotency_keys d @
             [\<lparr>idempotency_key = k, ik_user_id = u, ik_purpose = p, response_data = resp,
               ik_created_at = now, ik_expires_at = expiresAt\<rparr>]\<rparr>))"

text \<open>\<^verbatim>\<open>connection.rollback()\<close>: the tables are those at the start of the transaction;
  the counter is not restored.\<close>

definition rollback :: "db \<Rightarrow> db \<Rightarrow> db" where
  "rollback d0 d = d0\<lparr>otps_auto_increment := otps_auto_increment d\<rparr>"

section \<open>checkRateLimits\<close>

text \<open>\<^verbatim>\<open>Math.ceil(ms / 1000)\<close> on an integer number of milliseconds.\<close>

definition ceil_seconds :: "int \<Rightarrow> int" where
  "ceil_seconds ms = - ((- ms) div 1000)"

text \<open>The rows of a rate-limit table for a key with
  \<^verbatim>\<open>request_timestamp >= fifteenMinutesAgo\<close>.\<close>

definition window_rows :: "rate_limit_row list \<Rightarrow> string \<Rightarrow> time \<Rightarrow> rate_limit_row list" where
  "window_rows tbl k fifteenMinutesAgo =
     filter (\<lambda>r. scope_key r = k \<and> request_timestamp r \<ge> fifteenMinutesAgo) tbl"

text \<open>The 429 thrown when a count has reached its limit:
  \<^verbatim>\<open>ORDER BY request_timestamp ASC LIMIT 1\<close> is the head of the sorted timestamps.\<close>

definition cooldown_exn :: "rate_limit_row list \<Rightarrow> time \<Rightarrow> exn" where
  "cooldown_exn rows now =
     (case sort (map request_timestamp rows) of
        [] \<Rightarrow> TypeError
      | oldest # _ \<Rightarrow> Status_429 (ceil_seconds ((oldest + 15 * 60 * 1000) - now)))"

record rate_limit_info =
  user_remaining :: int
  ip_remaining :: int

definition checkRateLimits :: "db \<Rightarrow> time \<Rightarrow> string \<Rightarrow> string \<Rightarrow> exn + (rate_limit_info \<times> db)" where
  "checkRateLimits d now userId ipAddress =
     (let fifteenMinutesAgo = now - 15 * 60 * 1000;
          userRequests = window_rows (user_rate_limits d) userId fifteenMinutesAgo
      in if int (length userRequests) \<ge> 3 then Inl (cooldown_exn userRequests now)
         else
           let ipRequests = window_rows (ip_rate_limits d) ipAddress fifteenMinutesAgo
           in if int (length ipRequests) \<ge> 8 then Inl (cooldown_exn ipRequests now)
              else Inr (\<lparr>user_remaining = 3 - int (length userRequests) - 1,
                         ip_remaining = 8 - int (length ipRequests) - 1\<rparr>,
                        d\<lparr>user_rate_limits := user_rate_limits d @
                             [\<lparr>scope_key = userId, request_timestamp = now\<rparr>],
                          ip_rate_limits := ip_rate_limits d @
                             [\<lparr>scope_key = ipAddress, request_timestamp = now\<rparr>]\<rparr>))"

section \<open>POST /otp/request\<close>

text \<open>The \<^verbatim>\<open>catch\<close> block: roll back, then answer with the thrown status or with 500.\<close>

definition catch_request :: "db \<Rightarrow> db \<Rightarrow> exn \<Rightarrow> response \<times> db" where
  "catch_request d0 d e =
     (case e of Status_429 n \<Rightarrow> (Rate_limit_exceeded n, rollback d0 d)
              | _ \<Rightarrow> (Internal_server_error, rollback d0 d))"

text \<open>The rows \<^verbatim>\<open>existingOTP\<close> selects: unused, unlocked and unexpired.\<close>

definition existingOTP :: "db \<Rightarrow> time \<Rightarrow> string \<Rightarrow> string \<Rightarrow> otp_row list" where
  "existingOTP d now u p =
     filter (\<lambda>r. user_id r = u \<and> purpose r = p \<and> \<not> is_used r \<and> \<not> is_locked r \<and> expires_at r > now)
       (otps d)"

text \<open>\<^verbatim>\<open>JSON.parse(existingIdempotency[0].response_data)\<close>. The column \<^verbatim>\<open>response_data\<close> has
  the type \<^verbatim>\<open>JSON\<close>, and the driver returns the value of such a column already parsed: the
  argument is an object, not a string. \<^verbatim>\<open>JSON.parse\<close> converts its argument to a string
  first, which for an object is \<^verbatim>\<open>[object Object]\<close> and no JSON text: it throws.\<close>

definition JSON_parse :: "issue_payload \<Rightarrow> exn + issue_payload" where
  "JSON_parse obj = Inl SyntaxError"

definition otp_request ::
  "db \<Rightarrow> time \<Rightarrow> 32 word \<Rightarrow> string \<Rightarrow> string \<Rightarrow> string \<Rightarrow> string \<Rightarrow> response \<times> db" where
  "otp_request d now rnd u p idempotencyKey ipAddress =
     (if u = [] \<or> p = [] \<or> idempotencyKey = [] then (Missing_required_fields, d)
      else
        case filter (\<lambda>r. idempotency_key r = idempotencyKey \<and> ik_expires_at r > now)
               (idempotency_keys d) of
          existing # _ \<Rightarrow>
           (case JSON_parse (response_data existing) of
              Inl e \<Rightarrow> catch_request d d e
            | Inr body \<Rightarrow> (Replayed body, d))
        | [] \<Rightarrow>
           (case checkRateLimits d now u ipAddress of
              Inl e \<Rightarrow> catch_request d d e
            | Inr (rateLimitInfo, d1) \<Rightarrow>
               (case (case existingOTP d1 now u p of
                        [] \<Rightarrow> Inr (0, d1)
                      | e # _ \<Rightarrow> update_otps (\<lambda>r. otp_id r = otp_id e) (\<lambda>r. r\<lparr>is_used := True\<rparr>) d1) of
                  Inl e \<Rightarrow> catch_request d d1 e
                | Inr (_, d2) \<Rightarrow>
                   let otpCode = generateOTP rnd;
                       expiresAt = now + 5 * 60 * 1000
                   in (case insert_otp now u p otpCode expiresAt d2 of
                         (Inl e, d3) \<Rightarrow> catch_request d d3 e
                       | (Inr insertId, d3) \<Rightarrow>
                          let resp = \<lparr>resp_otp_id = String_of_nat insertId, ttl = 300,
                                      remaining_requests = user_remaining rateLimitInfo\<rparr>;
                              idempotencyExpires = now + 10 * 60 * 1000
                          in (case insert_idempotency_key now idempotencyKey u p resp
                                     idempotencyExpires d3 of
                                Inl e \<Rightarrow> catch_request d d3 e
                              | Inr d4 \<Rightarrow> (Created resp, d4))))))"

section \<open>POST /otp/verify\<close>

text \<open>\<^verbatim>\<open>WHERE user_id = ? AND purpose = ? AND is_used = FALSE ORDER BY created_at DESC
  LIMIT 1\<close>: among the unused rows of the pair, one with the greatest \<^verbatim>\<open>created_at\<close>
  (the first in table order where several share it; SQL leaves that choice open).\<close>

definition select_latest_unused :: "db \<Rightarrow> string \<Rightarrow> string \<Rightarrow> otp_row option" where
  "select_latest_unused d u p =
     (case filter (\<lambda>r. user_id r = u \<and> purpose r = p \<and> \<not> is_used r) (otps d) of
        [] \<Rightarrow> None
      | r # rs \<Rightarrow> Some (fold (\<lambda>x best. if created_at x > created_at best then x else best) rs r))"

text \<open>The handler from the check \<^verbatim>\<open>if (otp.is_used)\<close> on: \<open>otp\<close> is the handler's local
  copy of the row, \<open>d0\<close> the database at the start of the transaction.\<close>

definition verify_code :: "db \<Rightarrow> db \<Rightarrow> time \<Rightarrow> otp_row \<Rightarrow> string \<Rightarrow> response \<times> db" where
  "verify_code d0 d now otp c =
     (if is_used otp then (Code_used, d)
      else if code otp = c then
        (case update_otps (\<lambda>r. otp_id r = otp_id otp \<and> \<not> is_used r) (\<lambda>r. r\<lparr>is_used := True\<rparr>) d of
           Inl e \<Rightarrow> (Internal_server_error, rollback d0 d)
         | Inr (affectedRows, d') \<Rightarrow>
            if affectedRows = 0 then (Code_used, d') else (Verification_successful, d'))
      else
        let newAttemptCount = attempt_count otp + 1
        in if newAttemptCount \<ge> 3 then
             (case update_otps (\<lambda>r. otp_id r = otp_id otp)
                     (\<lambda>r. r\<lparr>attempt_count := newAttemptCount, is_locked := True,
                             locked_until := Some (now + 10 * 60 * 1000)\<rparr>) d of
                Inl e \<Rightarrow> (Internal_server_error, rollback d0 d)
              | Inr (_, d') \<Rightarrow> (Too_many_attempts 600, d'))
           else
             (case update_otps (\<lambda>r. otp_id r = otp_id otp)
                     (\<lambda>r. r\<lparr>attempt_count := newAttemptCount\<rparr>) d of
                Inl e \<Rightarrow> (Internal_server_error, rollback d0 d)
              | Inr (_, d') \<Rightarrow> (Invalid_code (3 - newAttemptCount), d')))"

definition otp_verify :: "db \<Rightarrow> time \<Rightarrow> string \<Rightarrow> string \<Rightarrow> string \<Rightarrow> response \<times> db" where
  "otp_verify d now u p c =
     (if u = [] \<or> p = [] \<or> c = [] then (Missing_required_fields, d)
      else
        case select_latest_unused d u p of
          None \<Rightarrow> (Otp_not_found, d)
        | Some otp \<Rightarrow>
           if expires_at otp < now then
             (case update_otps (\<lambda>r. otp_id r = otp_id otp) (\<lambda>r. r\<lparr>is_used := True\<rparr>) d of
                Inl e \<Rightarrow> (Internal_server_error, rollback d d)
              | Inr (_, d') \<Rightarrow> (Otp_expired, d'))
           else
             (case (if is_locked otp then locked_until otp else None) of
                None \<Rightarrow> verify_code d d now otp c
              | Some lockedUntil \<Rightarrow>
                 if lockedUntil > now then
                   (Too_many_attempts (ceil_seconds (lockedUntil - now)), d)
                 else
                   (case update_otps (\<lambda>r. otp_id r = otp_id otp)
                           (\<lambda>r. r\<lparr>is_locked := False, locked_until := None, attempt_count := 0\<rparr>) d of
                      Inl e \<Rightarrow> (Internal_server_error, rollback d d)
                    | Inr (_, d1) \<Rightarrow>
                       verify_code d d1 now (otp\<lparr>is_locked := False, attempt_count := 0\<rparr>) c)))"

section \<open>Reachable states\<close>

text \<open>The databases that sequences of requests to the two handlers produce from the empty
  schema, with any arguments and at any instants.\<close>

inductive reachable :: "db \<Rightarrow> bool" where
  start: "reachable empty_db"
| request: "reachable d \<Longrightarrow> reachable (snd (otp_request d now rnd u p k ip))"
| verify: "reachable d \<Longrightarrow> reachable (snd (otp_verify d now u p c))"

text \<open>The same with a clock that does not run backwards: \<open>reachable_at d t\<close> when \<open>d\<close> is
  produced by requests at non-decreasing instants, the last of them at \<open>t\<close>.\<close>

inductive reachable_at :: "db \<Rightarrow> time \<Rightarrow> bool" where
  start_at: "reachable_at empty_db t"
| request_at: "reachable_at d t \<Longrightarrow> t \<le> now \<Longrightarrow>
     reachable_at (snd (otp_request d now rnd u p k ip)) now"
| verify_at: "reachable_at d t \<Longrightarrow> t \<le> now \<Longrightarrow>
     reachable_at (snd (otp_verify d now u p c)) now"

section \<open>A scenario\<close>

text \<open>User \<^verbatim>\<open>U1\<close> requests a code for \<^verbatim>\<open>login\<close> at time 0 (the random draw is 123456, so
  the code is \<^verbatim>\<open>123456\<close>). The states below continue from there: three wrong codes at
  1 s, 2 s and 3 s; then a second request at 4 s; or the right code at 10 s; or a
  verification at 300.001 s, after the code has expired.\<close>

definition scenario_issued :: db where
  "scenario_issued = snd (otp_request empty_db 0 123456 ''U1'' ''login'' ''k1'' ''1.1.1.1'')"

definition scenario_locked :: db where
  "scenario_locked =
     snd (otp_verify (snd (otp_verify (snd (otp_verify scenario_issued
       1000 ''U1'' ''login'' ''000000'')) 2000 ''U1'' ''login'' ''000000''))
       3000 ''U1'' ''login'' ''000000'')"

definition scenario_reissued :: db where
  "scenario_reissued = snd (otp_request scenario_locked 4000 654321 ''U1'' ''login'' ''k2'' ''1.1.1.1'')"

definition scenario_verified :: db where
  "scenario_verified = snd (otp_verify scenario_issued 10000 ''U1'' ''login'' ''123456'')"

definition scenario_retired :: db where
  "scenario_retired = snd (otp_verify scenario_issued 300001 ''U1'' ''login'' ''123456'')"

section \<open>The statements of a request, taken together\<close>

text \<open>The table \<^verbatim>\<open>otps\<close> after the invalidating \<^verbatim>\<open>UPDATE\<close> of the request handler, and the
  row its \<^verbatim>\<open>INSERT\<close> adds.\<close>

definition invalidated_otps :: "db \<Rightarrow> time \<Rightarrow> string \<Rightarrow> string \<Rightarrow> otp_row list" where
  "invalidated_otps d now u p =
     (case existingOTP d now u p of
        [] \<Rightarrow> otps d
      | e # _ \<Rightarrow> map (\<lambda>r. if otp_id r = otp_id e then r\<lparr>is_used := True\<rparr> else r) (otps d))"

definition new_otp_row :: "db \<Rightarrow> time \<Rightarrow> 32 word \<Rightarrow> string \<Rightarrow> string \<Rightarrow> otp_row" where
  "new_otp_row d now rnd u p =
     \<lparr>otp_id = otps_auto_increment d, user_id = u, purpose = p, code = generateOTP rnd,
      created_at = now, expires_at = now + 300000, is_used = False, is_locked = False,
      locked_until = None, attempt_count = 0\<rparr>"

text \<open>No statement of the transaction is rejected: the keys of \<^verbatim>\<open>otps\<close> hold with the
  new row, and the idempotency key is not in its table.\<close>

definition statements_accepted :: "db \<Rightarrow> time \<Rightarrow> 32 word \<Rightarrow> string \<Rightarrow> string \<Rightarrow> string \<Rightarrow> bool" where
  "statements_accepted d now rnd u p k \<longleftrightarrow>
     otps_keys_ok (invalidated_otps d now u p @ [new_otp_row d now rnd u p]) \<and>
     k \<notin> set (map idempotency_key (idempotency_keys d))"

section \<open>Auxiliary notions for the properties\<close>

text \<open>Reading a decimal string back: the value of a digit, and of a string of digits.\<close>

definition digit_val :: "char \<Rightarrow> nat" where
  "digit_val c = of_char c - 48"

definition nat_of_digits :: "string \<Rightarrow> nat" where
  "nat_of_digits s = foldl (\<lambda>a c. 10 * a + digit_val c) 0 s"

text \<open>The number of 32-bit draws that \<^verbatim>\<open>generateOTP\<close> maps to a given string.\<close>

definition preimage_count :: "string \<Rightarrow> nat" where
  "preimage_count s = card {randomNumber. generateOTP randomNumber = s}"

section \<open>Evaluating the handlers on the scenario\<close>

lemma replicate_numeral: "replicate (numeral k) x = x # replicate (pred_numeral k) x"
  by (simp add: numeral_eq_Suc)

text \<open>
  The definitions that a concrete request unfolds to.
\<close>

lemmas handler_defs = otp_request_def checkRateLimits_def window_rows_def cooldown_exn_def
  catch_request_def existingOTP_def update_otps_def insert_otp_def insert_idempotency_key_def
  rollback_def otps_keys_ok_def uk_user_purpose_active_def generateOTP_def padStart_def
  String_of_nat.simps digit_char_def select_latest_unused_def verify_code_def otp_verify_def
  ceil_seconds_def JSON_parse_def Let_def replicate_numeral

lemma scenario_issued_eq:
  "otp_request empty_db 0 123456 ''U1'' ''login'' ''k1'' ''1.1.1.1'' =
     (Created \<lparr>resp_otp_id = ''1'', ttl = 300, remaining_requests = 2\<rparr>, scenario_issued)"
  "scenario_issued =
     \<lparr>otps = [\<lparr>otp_id = 1, user_id = ''U1'', purpose = ''login'', code = ''123456'',
               created_at = 0, expires_at = 300000, is_used = False, is_locked = False,
               locked_until = None, attempt_count = 0\<rparr>],
      user_rate_limits = [\<lparr>scope_key = ''U1'', request_timestamp = 0\<rparr>],
      ip_rate_limits = [\<lparr>scope_key = ''1.1.1.1'', request_timestamp = 0\<rparr>],
      idempotency_keys = [\<lparr>idempotency_key = ''k1'', ik_user_id = ''U1'', ik_purpose = ''login'',
          response_data = \<lparr>resp_otp_id = ''1'', ttl = 300, remaining_requests = 2\<rparr>,
          ik_created_at = 0, ik_expires_at = 600000\<rparr>],
      otps_auto_increment = 2\<rparr>"
  by (simp_all add: scenario_issued_def handler_defs empty_db_def)

lemma scenario_locked_eq:
  "scenario_locked = scenario_issued\<lparr>otps :=
     [\<lparr>otp_id = 1, user_id = ''U1'', purpose = ''login'', code = ''123456'',
       created_at = 0, expires_at = 300000, is_used = False, is_locked = True,
       locked_until = Some 603000, attempt_count = 3\<rparr>]\<rparr>"
  by (simp add: scenario_locked_def scenario_issued_eq(2) handler_defs)

lemma scenario_reissued_eq:
  "otp_request scenario_locked 4000 654321 ''U1'' ''login'' ''k2'' ''1.1.1.1'' =
     (Created \<lparr>resp_otp_id = ''2'', ttl = 300, remaining_requests = 1\<rparr>, scenario_reissued)"
  "otps scenario_reissued =
     [\<lparr>otp_id = 1, user_id = ''U1'', purpose = ''login'', code = ''123456'',
       created_at = 0, expires_at = 300000, is_used = False, is_locked = True,
       locked_until = Some 603000, attempt_count = 3\<rparr>,
      \<lparr>otp_id = 2, user_id = ''U1'', purpose = ''login'', code = ''654321'',
       created_at = 4000, expires_at = 304000, is_used = False, is_locked = False,
       locked_until = None, attempt_count = 0\<rparr>]"
  by (simp_all add: scenario_reissued_def scenario_locked_eq scenario_issued_eq(2) handler_defs)

lemma scenario_verified_eq:
  "otp_verify scenario_issued 10000 ''U1'' ''login'' ''123456'' = (Verification_successful, scenario_verified)"
  "scenario_verified = scenario_issued\<lparr>otps :=
     [\<lparr>otp_id = 1, user_id = ''U1'', purpose = ''login'', code = ''123456'',
       created_at = 0, expires_at = 300000, is_used = True, is_locked = False,
       locked_until = None, attempt_count = 0\<rparr>]\<rparr>"
  by (simp_all add: scenario_verified_def scenario_issued_eq(2) handler_defs)


lemma scenario_reachable:
  "reachable scenario_issued" "reachable scenario_locked" "reachable scenario_reissued"
  "reachable scenario_verified" "reachable scenario_retired"
  unfolding scenario_issued_def scenario_locked_def scenario_reissued_def scenario_verified_def
    scenario_retired_def
  by (intro reachable.intros)+


section \<open>generateOTP: shape and distribution of the codes\<close>

lemma digit_val_digit_char: "d < 10 \<Longrightarrow> digit_val (digit_char d) = d"
proof -
  assume "d < 10"
  then have "d = 0 \<or> d = 1 \<or> d = 2 \<or> d = 3 \<or> d = 4 \<or> d = 5 \<or> d = 6 \<or> d = 7 \<or> d = 8 \<or> d = 9"
    by presburger
  then show ?thesis
    by (elim disjE) (simp_all add: digit_val_def digit_char_def)
qed

lemma digit_char_numeric: "d < 10 \<Longrightarrow> digit_char d \<in> set ''0123456789''"
  unfolding digit_char_def by (rule nth_mem) simp

lemma nat_of_digits_snoc: "nat_of_digits (s @ [c]) = 10 * nat_of_digits s + digit_val c"
  by (simp add: nat_of_digits_def)

lemma nat_of_digits_String_of_nat: "nat_of_digits (String_of_nat n) = n"
proof (induction n rule: String_of_nat.induct)
  case (1 n)
  show ?case
  proof (cases "n < 10")
    case True
    then show ?thesis
      by (simp add: String_of_nat.simps [of n] nat_of_digits_def digit_val_digit_char)
  next
    case False
    then have "nat_of_digits (String_of_nat n) = 10 * (n div 10) + n mod 10"
      using "1.IH" by (simp add: String_of_nat.simps [of n] nat_of_digits_snoc digit_val_digit_char)
    then show ?thesis by simp
  qed
qed

lemma nat_of_digits_zeros: "nat_of_digits (replicate k (CHR ''0'') @ s) = nat_of_digits s"
proof -
  have "foldl (\<lambda>a c. 10 * a + digit_val c) 0 (replicate k (CHR ''0'')) = 0"
    by (induction k) (simp_all add: digit_val_def)
  then show ?thesis by (simp add: nat_of_digits_def)
qed

lemma nat_of_digits_padStart: "nat_of_digits (padStart k (CHR ''0'') (String_of_nat n)) = n"
  by (simp add: padStart_def nat_of_digits_zeros nat_of_digits_String_of_nat)

lemma length_String_of_nat: "0 < k \<Longrightarrow> n < 10 ^ k \<Longrightarrow> length (String_of_nat n) \<le> k"
proof (induction n arbitrary: k rule: String_of_nat.induct)
  case (1 n)
  show ?case
  proof (cases "n < 10")
    case True
    with "1.prems" show ?thesis by (simp add: String_of_nat.simps [of n])
  next
    case False
    with "1.prems" obtain j where k: "k = Suc j" and j: "0 < j"
      by (cases k; cases "k - 1") auto
    from "1.prems" k have "n div 10 < 10 ^ j"
      by (simp add: less_mult_imp_div_less mult.commute)
    with "1.IH" [OF False j] have "length (String_of_nat (n div 10)) \<le> j" .
    with False k show ?thesis by (simp add: String_of_nat.simps [of n])
  qed
qed

lemma String_of_nat_numeric: "set (String_of_nat n) \<subseteq> set ''0123456789''"
proof (induction n rule: String_of_nat.induct)
  case (1 n)
  show ?case
  proof (cases "n < 10")
    case True
    then show ?thesis
      using digit_char_numeric [of n] by (simp add: String_of_nat.simps [of n])
  next
    case False
    then show ?thesis
      using "1.IH" digit_char_numeric [of "n mod 10"] by (simp add: String_of_nat.simps [of n])
  qed
qed

lemma residue_class_image:
  assumes "c < M"
  shows "{n::nat. n < N \<and> n mod M = c} = (\<lambda>k. c + k * M) ` {k. c + k * M < N}"
proof (intro set_eqI iffI)
  fix n assume "n \<in> {n. n < N \<and> n mod M = c}"
  then have n: "n < N" "n mod M = c" by simp_all
  have "n = c + (n div M) * M" using n(2) by (metis mod_div_decomp add.commute)
  with n(1) have "n div M \<in> {k. c + k * M < N}" by simp
  with \<open>n = c + (n div M) * M\<close> show "n \<in> (\<lambda>k. c + k * M) ` {k. c + k * M < N}"
    by (rule image_eqI)
next
  fix n assume "n \<in> (\<lambda>k. c + k * M) ` {k. c + k * M < N}"
  then obtain k where "n = c + k * M" "c + k * M < N" by blast
  with assms show "n \<in> {n. n < N \<and> n mod M = c}" by simp
qed

lemma card_residue_class:
  assumes "c < M"
  shows "card {n::nat. n < N \<and> n mod M = c} = card {k. c + k * M < N}"
proof -
  from assms have "inj_on (\<lambda>k. c + k * M) {k. c + k * M < N}"
    by (intro inj_onI) simp
  then show ?thesis
    by (simp add: residue_class_image [OF assms] card_image)
qed

lemma card_word_unat:
  "card {w :: 32 word. P (unat w)} = card {n. n < 2 ^ 32 \<and> P n}"
proof -
  have "unat ` {w :: 32 word. P (unat w)} = {n. n < 2 ^ 32 \<and> P n}"
  proof (intro set_eqI iffI)
    fix n assume "n \<in> unat ` {w :: 32 word. P (unat w)}"
    then obtain w :: "32 word" where "n = unat w" "P (unat w)" by blast
    moreover have "unat w < 2 ^ 32" using unsigned_less [of w] by simp
    ultimately show "n \<in> {n. n < 2 ^ 32 \<and> P n}" by simp
  next
    fix n assume "n \<in> {n. n < 2 ^ 32 \<and> P n}"
    then have n: "n < 2 ^ 32" "P n" by simp_all
    then have "unat (word_of_nat n :: 32 word) = n" by (simp add: unat_of_nat)
    with n(2) show "n \<in> unat ` {w :: 32 word. P (unat w)}"
      by (metis (mono_tags, lifting) image_eqI mem_Collect_eq)
  qed
  moreover have "inj_on unat {w :: 32 word. P (unat w)}"
    by (intro inj_onI) (simp add: word_unat_eq_iff)
  ultimately show ?thesis by (metis card_image)
qed

lemma generateOTP_eq_iff:
  assumes "c < 1000000"
  shows "generateOTP w = padStart 6 (CHR ''0'') (String_of_nat c) \<longleftrightarrow> unat w mod 1000000 = c"
proof
  assume "generateOTP w = padStart 6 (CHR ''0'') (String_of_nat c)"
  then have "nat_of_digits (generateOTP w) = nat_of_digits (padStart 6 (CHR ''0'') (String_of_nat c))"
    by simp
  then show "unat w mod 1000000 = c"
    by (simp add: generateOTP_def nat_of_digits_padStart)
next
  assume "unat w mod 1000000 = c"
  then show "generateOTP w = padStart 6 (CHR ''0'') (String_of_nat c)"
    by (simp add: generateOTP_def)
qed

lemma preimage_count_code:
  assumes "c < 1000000"
  shows "preimage_count (padStart 6 (CHR ''0'') (String_of_nat c)) = (if c < 967296 then 4295 else 4294)"
proof -
  have "preimage_count (padStart 6 (CHR ''0'') (String_of_nat c))
      = card {w :: 32 word. unat w mod 1000000 = c}"
    by (simp add: preimage_count_def generateOTP_eq_iff [OF assms])
  also have "\<dots> = card {n. n < 2 ^ 32 \<and> n mod 1000000 = c}"
    by (rule card_word_unat)
  also have "\<dots> = card {k. c + k * 1000000 < 2 ^ 32}"
    by (rule card_residue_class [OF assms])
  also have "{k. c + k * 1000000 < 2 ^ 32} = {..<(if c < 967296 then 4295 else 4294)}"
  proof (cases "c < 967296")
    case True
    then show ?thesis by (intro set_eqI) (simp, arith)
  next
    case False
    with assms show ?thesis by (intro set_eqI) (simp, arith)
  qed
  finally show ?thesis by simp
qed

lemma generateOTP_shape:
  "length (generateOTP w) = 6 \<and> set (generateOTP w) \<subseteq> set ''0123456789''"
proof -
  let ?s = "String_of_nat (unat w mod 1000000)"
  have "unat w mod 1000000 < 10 ^ 6" by simp
  then have len: "length ?s \<le> 6" by (intro length_String_of_nat) simp_all
  have "set ?s \<subseteq> set ''0123456789''" by (rule String_of_nat_numeric)
  with len show ?thesis
    by (auto simp: generateOTP_def padStart_def)
qed

text \<open>
  C9, as the code has it. Every value \<^verbatim>\<open>generateOTP\<close> returns is a string of six decimal
  digits. The draw is reduced modulo 1000000 with no rejection step, and \<open>2 ^ 32\<close> is not a
  multiple of 1000000: the code that displays \<open>c\<close> is the image of 4295 of the 32-bit
  draws when \<open>c < 967296\<close> and of 4294 draws otherwise.
\<close>

theorem generateOTP_distribution:
  "length (generateOTP w) = 6 \<and> set (generateOTP w) \<subseteq> set ''0123456789'' \<and>
   (c < 1000000 \<longrightarrow>
      preimage_count (padStart 6 (CHR ''0'') (String_of_nat c))
        = (if c < 967296 then 4295 else 4294))"
  using generateOTP_shape [of w] preimage_count_code [of c] by simp

theorem generateOTP_distribution_witness:
  "length (generateOTP 123456) = 6 \<and> set (generateOTP 123456) \<subseteq> set ''0123456789'' \<and>
   (42::nat) < 1000000 \<and> preimage_count ''000042'' = 4295"
  using generateOTP_distribution [of 123456 42]
  by (simp add: padStart_def String_of_nat.simps digit_char_def replicate_numeral)

text \<open>
  C9 as stated fails: the codes are not equally likely. The code \<^verbatim>\<open>000000\<close> is drawn by
  4295 of the 32-bit values, the code \<^verbatim>\<open>999999\<close> by 4294.
\<close>

theorem generateOTP_modulo_bias:
  "preimage_count ''000000'' = 4295 \<and> preimage_count ''999999'' = 4294 \<and>
   preimage_count ''000000'' \<noteq> preimage_count ''999999''"
  using preimage_count_code [of 0] preimage_count_code [of 999999]
  by (simp add: padStart_def String_of_nat.simps digit_char_def replicate_numeral)

section \<open>The statements of the database and the selection of the record\<close>

lemma update_otps_Inr:
  "update_otps wh st d = Inr (n, d') \<Longrightarrow>
     d' = d\<lparr>otps := map (\<lambda>r. if wh r then st r else r) (otps d)\<rparr> \<and>
     n = length (filter wh (otps d)) \<and> otps_keys_ok (otps d')"
  by (auto simp: update_otps_def Let_def split: if_splits)

lemma insert_otp_cases:
  "insert_otp now u p c e d = (x, d') \<Longrightarrow>
     (\<exists>err. x = Inl err \<and> d' = d\<lparr>otps_auto_increment := Suc (otps_auto_increment d)\<rparr>) \<or>
     (x = Inr (otps_auto_increment d) \<and> otps_keys_ok (otps d') \<and>
      d' = d\<lparr>otps_auto_increment := Suc (otps_auto_increment d),
             otps := otps d @ [\<lparr>otp_id = otps_auto_increment d, user_id = u, purpose = p, code = c,
               created_at = now, expires_at = e, is_used = False, is_locked = False,
               locked_until = None, attempt_count = 0\<rparr>]\<rparr>)"
  by (auto simp: insert_otp_def Let_def split: if_splits)

lemma update_otps_rows:
  assumes "\<forall>r \<in> set (otps d). P r" "\<And>r. P r \<Longrightarrow> P (st r)" "update_otps wh st d = Inr (n, d')"
  shows "\<forall>r \<in> set (otps d'). P r"
  using assms by (auto dest!: update_otps_Inr)

lemma select_latest_unused_mem:
  assumes "select_latest_unused d u p = Some otp"
  shows "otp \<in> set (otps d) \<and> user_id otp = u \<and> purpose otp = p \<and> \<not> is_used otp"
proof -
  let ?P = "\<lambda>r. user_id r = u \<and> purpose r = p \<and> \<not> is_used r"
  have fold_mem: "fold (\<lambda>x best. if created_at x > created_at best then x else best) rs r \<in> set (r # rs)"
    for rs and r :: otp_row
    by (induction rs arbitrary: r) auto
  from assms obtain r rs where f: "filter ?P (otps d) = r # rs"
    and o: "otp = fold (\<lambda>x best. if created_at x > created_at best then x else best) rs r"
    by (auto simp: select_latest_unused_def split: list.splits)
  from fold_mem [of rs r] o have "otp \<in> set (filter ?P (otps d))" by (simp add: f)
  then show ?thesis by simp
qed

section \<open>The verify handler\<close>

text \<open>
  An invariant of the database is kept by \<^verbatim>\<open>/otp/verify\<close> when each of the four updates
  the handler issues keeps it.
\<close>

lemma verify_code_preserves:
  assumes "I d0" "I d" and cnt: "otps_auto_increment d = otps_auto_increment d0"
    and used: "\<And>d1 wh n d2. I d1 \<Longrightarrow> update_otps wh (\<lambda>r. r\<lparr>is_used := True\<rparr>) d1 = Inr (n, d2) \<Longrightarrow> I d2"
    and lock: "\<And>d1 wh n d2 a. I d1 \<Longrightarrow>
        update_otps wh (\<lambda>r. r\<lparr>attempt_count := a, is_locked := True,
                               locked_until := Some (now + 10 * 60 * 1000)\<rparr>) d1 = Inr (n, d2) \<Longrightarrow> I d2"
    and count: "\<And>d1 wh n d2 a. I d1 \<Longrightarrow>
        update_otps wh (\<lambda>r. r\<lparr>attempt_count := a\<rparr>) d1 = Inr (n, d2) \<Longrightarrow> I d2"
  shows "I (snd (verify_code d0 d now otp c))"
proof (cases "is_used otp")
  case True
  with assms(2) show ?thesis by (simp add: verify_code_def)
next
  case unused: False
  have rb: "rollback d0 d = d0" by (simp add: rollback_def cnt)
  show ?thesis
  proof (cases "code otp = c")
    case True
    with unused assms(1,2) used [OF assms(2)] show ?thesis
      by (auto simp: verify_code_def rb split: sum.splits)
  next
    case False
    with unused assms(1,2) lock [OF assms(2)] count [OF assms(2)] show ?thesis
      by (auto simp: verify_code_def rb Let_def split: sum.splits)
  qed
qed

lemma otp_verify_preserves:
  assumes inv: "I d"
    and used: "\<And>d1 wh n d2. I d1 \<Longrightarrow> update_otps wh (\<lambda>r. r\<lparr>is_used := True\<rparr>) d1 = Inr (n, d2) \<Longrightarrow> I d2"
    and unlock: "\<And>d1 wh n d2. I d1 \<Longrightarrow>
        update_otps wh (\<lambda>r. r\<lparr>is_locked := False, locked_until := None, attempt_count := 0\<rparr>) d1
          = Inr (n, d2) \<Longrightarrow> I d2"
    and lock: "\<And>d1 wh n d2 a. I d1 \<Longrightarrow>
        update_otps wh (\<lambda>r. r\<lparr>attempt_count := a, is_locked := True,
                               locked_until := Some (now + 10 * 60 * 1000)\<rparr>) d1 = Inr (n, d2) \<Longrightarrow> I d2"
    and count: "\<And>d1 wh n d2 a. I d1 \<Longrightarrow>
        update_otps wh (\<lambda>r. r\<lparr>attempt_count := a\<rparr>) d1 = Inr (n, d2) \<Longrightarrow> I d2"
  shows "I (snd (otp_verify d now u p c))"
proof (cases "u = [] \<or> p = [] \<or> c = []")
  case True
  with inv show ?thesis by (auto simp: otp_verify_def)
next
  case valid: False
  have vc: "I (snd (verify_code d d1 now otp c))"
    if "I d1" "otps_auto_increment d1 = otps_auto_increment d" for d1 otp
    using inv that used lock count by (rule verify_code_preserves)
  have rb: "rollback d d = d" by (simp add: rollback_def)
  show ?thesis
  proof (cases "select_latest_unused d u p")
    case None
    with inv valid show ?thesis by (simp add: otp_verify_def)
  next
    case (Some otp)
    show ?thesis
    proof (cases "expires_at otp < now")
      case True
      with inv valid Some used [OF inv] show ?thesis
        by (auto simp: otp_verify_def rb split: sum.splits)
    next
      case live: False
      show ?thesis
      proof (cases "if is_locked otp then locked_until otp else None")
        case None
        with valid Some live vc [OF inv refl] show ?thesis
          by (simp add: otp_verify_def)
      next
        case lk: (Some lu)
        show ?thesis
        proof (cases "lu > now")
          case True
          with inv valid Some live lk show ?thesis by (simp add: otp_verify_def)
        next
          case False
          let ?upd = "update_otps (\<lambda>r. otp_id r = otp_id otp)
                        (\<lambda>r. r\<lparr>is_locked := False, locked_until := None, attempt_count := 0\<rparr>) d"
          show ?thesis
          proof (cases ?upd)
            case (Inl e)
            with inv valid Some live lk False show ?thesis
              by (simp add: otp_verify_def rb)
          next
            case (Inr x)
            obtain n d1 where x: "x = (n, d1)" by (cases x)
            from Inr x unlock [OF inv] have "I d1" by simp
            moreover from Inr x have "otps_auto_increment d1 = otps_auto_increment d"
              by (auto dest!: update_otps_Inr)
            ultimately have "I (snd (verify_code d d1 now (otp\<lparr>is_locked := False, attempt_count := 0\<rparr>) c))"
              by (rule vc)
            with valid Some live lk False Inr x show ?thesis
              by (simp add: otp_verify_def)
          qed
        qed
      qed
    qed
  qed
qed

lemma otp_verify_frame:
  "snd (otp_verify d now u p c) = d\<lparr>otps := otps (snd (otp_verify d now u p c))\<rparr>"
proof -
  let ?I = "\<lambda>d'. d' = d\<lparr>otps := otps d'\<rparr>"
  have step: "?I d2" if "?I d1" "update_otps wh st d1 = Inr (n, d2)" for d1 d2 wh st n
  proof -
    from that(2) have "d2 = d1\<lparr>otps := otps d2\<rparr>" by (auto dest!: update_otps_Inr)
    with that(1) show ?thesis by (metis db.update_convs(1) db.surjective)
  qed
  have "?I d" by simp
  then show ?thesis
    by (rule otp_verify_preserves) (erule step, assumption)+
qed


lemma verify_code_not_Code_used:
  assumes "\<not> is_used otp" "r \<in> set (otps d)" "otp_id r = otp_id otp" "\<not> is_used r"
  shows "fst (verify_code d0 d now otp c) \<noteq> Code_used"
proof -
  from assms(2-4) have "filter (\<lambda>r. otp_id r = otp_id otp \<and> \<not> is_used r) (otps d) \<noteq> []"
    by (auto simp: filter_empty_conv)
  then have "length (filter (\<lambda>r. otp_id r = otp_id otp \<and> \<not> is_used r) (otps d)) \<noteq> 0"
    by simp
  with assms(1) show ?thesis
    by (auto simp: verify_code_def Let_def dest!: update_otps_Inr split: sum.splits if_splits)
qed


lemma otp_verify_locked:
  assumes "u \<noteq> []" "p \<noteq> []" "c \<noteq> []"
    and "select_latest_unused d u p = Some otp" "\<not> expires_at otp < now"
    and "is_locked otp" "locked_until otp = Some lu" "now < lu"
  shows "otp_verify d now u p c = (Too_many_attempts (ceil_seconds (lu - now)), d)"
  using assms by (simp add: otp_verify_def)

lemma otp_verify_active:
  assumes "u \<noteq> []" "p \<noteq> []" "c \<noteq> []"
    and "select_latest_unused d u p = Some otp" "\<not> expires_at otp < now"
    and "\<not> (is_locked otp \<and> locked_until otp \<noteq> None)"
  shows "otp_verify d now u p c = verify_code d d now otp c"
  using assms by (auto simp: otp_verify_def)

lemma otp_verify_unlock:
  assumes "u \<noteq> []" "p \<noteq> []" "c \<noteq> []"
    and "select_latest_unused d u p = Some otp" "\<not> expires_at otp < now"
    and "is_locked otp" "locked_until otp = Some lu" "lu \<le> now"
  shows "otp_verify d now u p c =
     (case update_otps (\<lambda>r. otp_id r = otp_id otp)
             (\<lambda>r. r\<lparr>is_locked := False, locked_until := None, attempt_count := 0\<rparr>) d of
        Inl e \<Rightarrow> (Internal_server_error, d)
      | Inr (n, d1) \<Rightarrow> verify_code d d1 now (otp\<lparr>is_locked := False, attempt_count := 0\<rparr>) c)"
  using assms by (auto simp: otp_verify_def rollback_def split: sum.splits)

text \<open>
  No call of the handler answers \<^verbatim>\<open>code_used\<close>: the record it selects is unused, and
  nothing changes that before the conditional update, which therefore matches a row.
\<close>

lemma otp_verify_not_Code_used: "fst (otp_verify d now u p c) \<noteq> Code_used"
proof (cases "u = [] \<or> p = [] \<or> c = []")
  case True
  then show ?thesis by (auto simp: otp_verify_def)
next
  case valid: False
  show ?thesis
  proof (cases "select_latest_unused d u p")
    case None
    with valid show ?thesis by (simp add: otp_verify_def)
  next
    case (Some otp)
    note mem = select_latest_unused_mem [OF Some]
    show ?thesis
    proof (cases "expires_at otp < now")
      case True
      with valid Some show ?thesis by (auto simp: otp_verify_def split: sum.splits)
    next
      case live: False
      show ?thesis
      proof (cases "is_locked otp \<and> locked_until otp \<noteq> None")
        case False
        with valid Some live have "otp_verify d now u p c = verify_code d d now otp c"
          by (intro otp_verify_active) auto
        with mem show ?thesis by (simp add: verify_code_not_Code_used [of otp otp])
      next
        case True
        then obtain lu where lk: "is_locked otp" "locked_until otp = Some lu" by auto
        show ?thesis
        proof (cases "now < lu")
          case True
          with valid Some live lk show ?thesis by (simp add: otp_verify_locked [of u p c d otp now lu])
        next
          case False
          let ?st = "\<lambda>r. r\<lparr>is_locked := False, locked_until := None, attempt_count := 0\<rparr>"
          from False valid Some live lk have eq: "otp_verify d now u p c =
             (case update_otps (\<lambda>r. otp_id r = otp_id otp) ?st d of
                Inl e \<Rightarrow> (Internal_server_error, d)
              | Inr (n, d1) \<Rightarrow> verify_code d d1 now (otp\<lparr>is_locked := False, attempt_count := 0\<rparr>) c)"
            by (intro otp_verify_unlock) auto
          show ?thesis
          proof (cases "update_otps (\<lambda>r. otp_id r = otp_id otp) ?st d")
            case (Inl e)
            with eq show ?thesis by simp
          next
            case (Inr x)
            obtain n d1 where x: "x = (n, d1)" by (cases x)
            from Inr x have d1: "otps d1 = map (\<lambda>r. if otp_id r = otp_id otp then ?st r else r) (otps d)"
              by (auto dest: update_otps_Inr)
            from mem have "?st otp \<in> set (otps d1)" unfolding d1 by force
            then have "fst (verify_code d d1 now (otp\<lparr>is_locked := False, attempt_count := 0\<rparr>) c) \<noteq> Code_used"
              using mem by (intro verify_code_not_Code_used [where r = "?st otp"]) simp_all
            with eq Inr x show ?thesis by simp
          qed
        qed
      qed
    qed
  qed
qed

section \<open>The rate limiter\<close>

lemma ceil_seconds_ceiling: "ceil_seconds ms = \<lceil>real_of_int ms / 1000\<rceil>"
proof -
  have "\<lfloor>real_of_int (- ms) / real_of_int 1000\<rfloor> = (- ms) div 1000"
    by (rule floor_divide_of_int_eq)
  then show ?thesis by (simp add: ceil_seconds_def ceiling_def)
qed

lemma sort_head_Min:
  fixes xs :: "int list"
  assumes "xs \<noteq> []"
  shows "\<exists>rest. sort xs = Min (set xs) # rest"
proof -
  from assms have "sort xs \<noteq> []" by (metis length_0_conv length_sort)
  then obtain y ys where ys: "sort xs = y # ys" by (cases "sort xs") auto
  have "sorted (y # ys)" "set (y # ys) = set xs"
    using ys [symmetric] by simp_all
  then have "Min (set xs) = y"
    by (intro Min_eqI) auto
  with ys show ?thesis by simp
qed

lemma cooldown_exn_Min:
  assumes "rows \<noteq> []"
  shows "cooldown_exn rows now =
     Status_429 (ceil_seconds (Min (request_timestamp ` set rows) + 900000 - now))"
proof -
  from assms have "map request_timestamp rows \<noteq> []" by simp
  from sort_head_Min [OF this] obtain rest
    where "sort (map request_timestamp rows) = Min (request_timestamp ` set rows) # rest"
    by auto
  then show ?thesis by (simp add: cooldown_exn_def)
qed

lemma checkRateLimits_Inr:
  assumes "checkRateLimits d now u ip = Inr (info, d1)"
  shows "d1 = d\<lparr>user_rate_limits := user_rate_limits d @ [\<lparr>scope_key = u, request_timestamp = now\<rparr>],
                ip_rate_limits := ip_rate_limits d @ [\<lparr>scope_key = ip, request_timestamp = now\<rparr>]\<rparr> \<and>
         user_remaining info = 3 - int (length (window_rows (user_rate_limits d) u (now - 900000))) - 1"
  using assms by (auto simp: checkRateLimits_def Let_def split: if_splits)

lemma checkRateLimits_Inl:
  assumes "checkRateLimits d now u ip = Inl e"
  shows "\<exists>n. e = Status_429 n"
proof -
  have "\<exists>n. cooldown_exn rows now = Status_429 n" if "3 \<le> int (length rows) \<or> 8 \<le> int (length rows)"
    for rows
  proof -
    from that have "rows \<noteq> []" by auto
    from cooldown_exn_Min [OF this] show ?thesis by blast
  qed
  with assms show ?thesis
    by (auto simp: checkRateLimits_def Let_def split: if_splits)
qed

section \<open>The request handler\<close>

text \<open>
  The outcomes of \<^verbatim>\<open>/otp/request\<close>: the request is refused for a missing field,
  stopped by \<^verbatim>\<open>JSON.parse\<close> on the payload of its idempotency key, refused by the rate
  limiter, rolled back on a rejected statement, or committed with the new record.
\<close>

lemma otp_request_result:
  assumes res: "otp_request d now rnd u p k ip = (resp, d')"
  obtains
    (invalid) "u = [] \<or> p = [] \<or> k = []" "resp = Missing_required_fields" "d' = d"
  | (replay) e rest where "u \<noteq> []" "p \<noteq> []" "k \<noteq> []"
      "filter (\<lambda>r. idempotency_key r = k \<and> ik_expires_at r > now) (idempotency_keys d) = e # rest"
      "resp = Internal_server_error" "d' = d"
  | (limited) n where "u \<noteq> []" "p \<noteq> []" "k \<noteq> []"
      "filter (\<lambda>r. idempotency_key r = k \<and> ik_expires_at r > now) (idempotency_keys d) = []"
      "checkRateLimits d now u ip = Inl (Status_429 n)" "resp = Rate_limit_exceeded n" "d' = d"
  | (failed) info d1 where "u \<noteq> []" "p \<noteq> []" "k \<noteq> []"
      "filter (\<lambda>r. idempotency_key r = k \<and> ik_expires_at r > now) (idempotency_keys d) = []"
      "checkRateLimits d now u ip = Inr (info, d1)" "resp = Internal_server_error"
      "d' = d \<or> d' = d\<lparr>otps_auto_increment := Suc (otps_auto_increment d)\<rparr>"
  | (created) info d1 where "u \<noteq> []" "p \<noteq> []" "k \<noteq> []"
      "filter (\<lambda>r. idempotency_key r = k \<and> ik_expires_at r > now) (idempotency_keys d) = []"
      "checkRateLimits d now u ip = Inr (info, d1)"
      "resp = Created \<lparr>resp_otp_id = String_of_nat (otps_auto_increment d), ttl = 300,
                 remaining_requests = user_remaining info\<rparr>"
      "k \<notin> set (map idempotency_key (idempotency_keys d))"
      "otps_keys_ok (otps d')"
      "d' = d1\<lparr>otps :=
              (case existingOTP d now u p of
                 [] \<Rightarrow> otps d
               | e # _ \<Rightarrow> map (\<lambda>r. if otp_id r = otp_id e then r\<lparr>is_used := True\<rparr> else r) (otps d))
              @ [\<lparr>otp_id = otps_auto_increment d, user_id = u, purpose = p, code = generateOTP rnd,
                   created_at = now, expires_at = now + 300000, is_used = False, is_locked = False,
                   locked_until = None, attempt_count = 0\<rparr>],
            otps_auto_increment := Suc (otps_auto_increment d),
            idempotency_keys := idempotency_keys d @
              [\<lparr>idempotency_key = k, ik_user_id = u, ik_purpose = p,
                response_data = \<lparr>resp_otp_id = String_of_nat (otps_auto_increment d), ttl = 300,
                                 remaining_requests = user_remaining info\<rparr>,
                ik_created_at = now, ik_expires_at = now + 600000\<rparr>]\<rparr>"
proof (cases "u = [] \<or> p = [] \<or> k = []")
  case True
  with res invalid show ?thesis by (auto simp: otp_request_def)
next
  case False
  then have valid: "u \<noteq> []" "p \<noteq> []" "k \<noteq> []" by simp_all
  show ?thesis
  proof (cases "filter (\<lambda>r. idempotency_key r = k \<and> ik_expires_at r > now) (idempotency_keys d)")
    case (Cons e rest)
    with res valid have "resp = Internal_server_error" "d' = d"
      by (simp_all add: otp_request_def JSON_parse_def catch_request_def rollback_def)
    with valid Cons replay show ?thesis by blast
  next
    case Nil
    show ?thesis
    proof (cases "checkRateLimits d now u ip")
      case (Inl e)
      then obtain n where e: "e = Status_429 n" using checkRateLimits_Inl by blast
      with res valid Nil Inl have "resp = Rate_limit_exceeded n" "d' = d"
        by (simp_all add: otp_request_def catch_request_def rollback_def)
      with valid Nil Inl e limited show ?thesis by blast
    next
      case (Inr x)
      obtain info d1 where x: "x = (info, d1)" by (cases x)
      from Inr x have crl: "checkRateLimits d now u ip = Inr (info, d1)" by simp
      note d1 = checkRateLimits_Inr [OF crl, THEN conjunct1]
      have ex1: "existingOTP d1 now u p = existingOTP d now u p"
        by (simp add: existingOTP_def d1)
      define upd where "upd = (case existingOTP d now u p of
          [] \<Rightarrow> Inr (0, d1)
        | e # _ \<Rightarrow> update_otps (\<lambda>r. otp_id r = otp_id e) (\<lambda>r. r\<lparr>is_used := True\<rparr>) d1)"
      have res1: "(resp, d') =
        (case upd of
           Inl e \<Rightarrow> catch_request d d1 e
         | Inr (_, d2) \<Rightarrow>
            (case insert_otp now u p (generateOTP rnd) (now + 5 * 60 * 1000) d2 of
               (Inl e, d3) \<Rightarrow> catch_request d d3 e
             | (Inr insertId, d3) \<Rightarrow>
                (case insert_idempotency_key now k u p
                        \<lparr>resp_otp_id = String_of_nat insertId, ttl = 300,
                          remaining_requests = user_remaining info\<rparr> (now + 10 * 60 * 1000) d3 of
                   Inl e \<Rightarrow> catch_request d d3 e
                 | Inr d4 \<Rightarrow> (Created \<lparr>resp_otp_id = String_of_nat insertId, ttl = 300,
                          remaining_requests = user_remaining info\<rparr>, d4))))"
        using res [symmetric] valid Nil crl unfolding otp_request_def Let_def upd_def ex1 [symmetric]
        by simp
      show ?thesis
      proof (cases upd)
        case (Inl e)
        with res1 have "resp = Internal_server_error \<or> (\<exists>n. resp = Rate_limit_exceeded n)" "d' = d"
          by (auto simp: catch_request_def rollback_def d1 split: exn.splits)
        moreover from Inl have "e = ER_DUP_ENTRY"
          by (auto simp: upd_def update_otps_def Let_def split: list.splits if_splits)
        ultimately have "resp = Internal_server_error" "d' = d"
          using res1 Inl by (simp_all add: catch_request_def)
        with valid Nil crl failed show ?thesis by blast
      next
        case (Inr y)
        obtain n d2 where y: "y = (n, d2)" by (cases y)
        from Inr y have d2: "d2 = d1\<lparr>otps := (case existingOTP d now u p of
                 [] \<Rightarrow> otps d
               | e # _ \<Rightarrow> map (\<lambda>r. if otp_id r = otp_id e then r\<lparr>is_used := True\<rparr> else r) (otps d))\<rparr>"
          by (auto simp: upd_def d1 dest!: update_otps_Inr split: list.splits)
        obtain x3 d3 where ins: "insert_otp now u p (generateOTP rnd) (now + 5 * 60 * 1000) d2 = (x3, d3)"
          by (cases "insert_otp now u p (generateOTP rnd) (now + 5 * 60 * 1000) d2")
        have cnt: "otps_auto_increment d2 = otps_auto_increment d" by (simp add: d2 d1)
        from insert_otp_cases [OF ins] show ?thesis
        proof (elim disjE exE conjE)
          fix err assume "x3 = Inl err" and d3: "d3 = d2\<lparr>otps_auto_increment := Suc (otps_auto_increment d2)\<rparr>"
          moreover from this ins have "err = ER_DUP_ENTRY"
            by (auto simp: insert_otp_def Let_def split: if_splits)
          ultimately have "resp = Internal_server_error"
            "d' = d\<lparr>otps_auto_increment := Suc (otps_auto_increment d)\<rparr>"
            using res1 Inr y ins cnt by (simp_all add: catch_request_def rollback_def)
          with valid Nil crl failed show ?thesis by blast
        next
          assume x3: "x3 = Inr (otps_auto_increment d2)" and ok3: "otps_keys_ok (otps d3)"
            and d3: "d3 = d2\<lparr>otps_auto_increment := Suc (otps_auto_increment d2),
               otps := otps d2 @ [\<lparr>otp_id = otps_auto_increment d2, user_id = u, purpose = p,
                 code = generateOTP rnd, created_at = now, expires_at = now + 5 * 60 * 1000,
                 is_used = False, is_locked = False, locked_until = None, attempt_count = 0\<rparr>]\<rparr>"
          let ?resp = "\<lparr>resp_otp_id = String_of_nat (otps_auto_increment d), ttl = 300,
                          remaining_requests = user_remaining info\<rparr>"
          have res2: "(resp, d') =
             (case insert_idempotency_key now k u p ?resp (now + 10 * 60 * 1000) d3 of
                   Inl e \<Rightarrow> catch_request d d3 e
                 | Inr d4 \<Rightarrow> (Created ?resp, d4))"
            using res1 Inr y ins x3 cnt by simp
          have keys3: "idempotency_keys d3 = idempotency_keys d" by (simp add: d3 d2 d1)
          show ?thesis
          proof (cases "k \<in> set (map idempotency_key (idempotency_keys d))")
            case True
            with res2 keys3 have "resp = Internal_server_error"
              "d' = d\<lparr>otps_auto_increment := Suc (otps_auto_increment d)\<rparr>"
              by (simp_all add: insert_idempotency_key_def catch_request_def rollback_def d3 cnt)
            with valid Nil crl failed show ?thesis by blast
          next
            case False
            with res2 keys3 have r: "resp = Created ?resp"
              and d': "d' = d3\<lparr>idempotency_keys := idempotency_keys d @
                  [\<lparr>idempotency_key = k, ik_user_id = u, ik_purpose = p, response_data = ?resp,
                    ik_created_at = now, ik_expires_at = now + 10 * 60 * 1000\<rparr>]\<rparr>"
              by (simp_all add: insert_idempotency_key_def)
            from d' ok3 have ok: "otps_keys_ok (otps d')" by simp
            show ?thesis
              by (rule created [OF valid Nil crl r _ ok]) (use False in \<open>simp_all add: d' d3 d2 d1 cnt\<close>)
          qed
        qed
      qed
    qed
  qed
qed

lemma otp_request_limited:
  assumes "u \<noteq> []" "p \<noteq> []" "k \<noteq> []"
    and "filter (\<lambda>r. idempotency_key r = k \<and> now < ik_expires_at r) (idempotency_keys d) = []"
    and "checkRateLimits d now u ip = Inl (Status_429 n)"
  shows "otp_request d now rnd u p k ip = (Rate_limit_exceeded n, d)"
  using assms by (simp add: otp_request_def catch_request_def rollback_def)

lemma otp_request_created_quota:
  assumes "otp_request d now rnd u p k ip = (Created pl, d')"
  shows "remaining_requests pl = 3 - int (length (window_rows (user_rate_limits d) u (now - 900000))) - 1 \<and>
         user_rate_limits d' = user_rate_limits d @ [\<lparr>scope_key = u, request_timestamp = now\<rparr>] \<and>
         ip_rate_limits d' = ip_rate_limits d @ [\<lparr>scope_key = ip, request_timestamp = now\<rparr>]"
  using assms
proof (cases rule: otp_request_result)
  case (created info d1)
  from checkRateLimits_Inr [OF created(5)] created(6,9) show ?thesis by simp
qed simp_all

lemma otps_keys_ok_butlast: "otps_keys_ok (rows @ [r]) \<Longrightarrow> otps_keys_ok rows"
  by (simp add: otps_keys_ok_def)

lemma otp_request_commits:
  assumes valid: "u \<noteq> []" "p \<noteq> []" "k \<noteq> []"
    and nokey: "filter (\<lambda>r. idempotency_key r = k \<and> now < ik_expires_at r) (idempotency_keys d) = []"
    and crl: "checkRateLimits d now u ip = Inr (info, d1)"
    and acc: "statements_accepted d now rnd u p k"
  shows "otp_request d now rnd u p k ip =
     (Created \<lparr>resp_otp_id = String_of_nat (otps_auto_increment d), ttl = 300,
                remaining_requests = user_remaining info\<rparr>,
      d1\<lparr>otps := invalidated_otps d now u p @ [new_otp_row d now rnd u p],
         otps_auto_increment := Suc (otps_auto_increment d),
         idempotency_keys := idempotency_keys d @
           [\<lparr>idempotency_key = k, ik_user_id = u, ik_purpose = p,
             response_data = \<lparr>resp_otp_id = String_of_nat (otps_auto_increment d), ttl = 300,
                              remaining_requests = user_remaining info\<rparr>,
             ik_created_at = now, ik_expires_at = now + 600000\<rparr>]\<rparr>)"
proof -
  note d1 = checkRateLimits_Inr [OF crl, THEN conjunct1]
  from acc have ok: "otps_keys_ok (invalidated_otps d now u p @ [new_otp_row d now rnd u p])"
    and fresh: "k \<notin> set (map idempotency_key (idempotency_keys d))"
    by (simp_all add: statements_accepted_def)
  note ok' = otps_keys_ok_butlast [OF ok]
  have ex1: "existingOTP (d\<lparr>user_rate_limits := us, ip_rate_limits := ips\<rparr>) now u p
      = existingOTP d now u p" for us ips
    by (simp add: existingOTP_def)
  show ?thesis
  proof (cases "existingOTP d now u p")
    case Nil
    with ok fresh valid nokey crl show ?thesis
      unfolding otp_request_def Let_def
      by (simp add: invalidated_otps_def new_otp_row_def insert_otp_def
          insert_idempotency_key_def d1 ex1 Let_def)
  next
    case (Cons e rest)
    with ok ok' fresh valid nokey crl show ?thesis
      unfolding otp_request_def Let_def
      by (simp add: invalidated_otps_def new_otp_row_def update_otps_def insert_otp_def
          insert_idempotency_key_def d1 ex1 Let_def)
  qed
qed

lemma otp_request_aborts:
  assumes valid: "u \<noteq> []" "p \<noteq> []" "k \<noteq> []"
    and nokey: "filter (\<lambda>r. idempotency_key r = k \<and> now < ik_expires_at r) (idempotency_keys d) = []"
    and crl: "checkRateLimits d now u ip = Inr (info, d1)"
    and rej: "\<not> statements_accepted d now rnd u p k"
    and res: "otp_request d now rnd u p k ip = (resp, d')"
  shows "resp = Internal_server_error \<and> otps d' = otps d \<and>
         user_rate_limits d' = user_rate_limits d \<and> ip_rate_limits d' = ip_rate_limits d \<and>
         idempotency_keys d' = idempotency_keys d"
  using res
proof (cases rule: otp_request_result)
  case invalid
  with valid show ?thesis by simp
next
  case (replay e rest)
  with nokey show ?thesis by simp
next
  case (limited n)
  with crl show ?thesis by simp
next
  case (failed info' d1')
  then show ?thesis by auto
next
  case (created info' d1')
  from created(8,9) have "otps_keys_ok (invalidated_otps d now u p @ [new_otp_row d now rnd u p])"
    by (simp add: invalidated_otps_def new_otp_row_def)
  with created(7) rej show ?thesis by (simp add: statements_accepted_def)
qed

section \<open>Invariants of the reachable states\<close>

lemma otp_request_rows:
  assumes rows: "\<forall>r \<in> set (otps d). P r"
    and used: "\<And>r. P r \<Longrightarrow> P (r\<lparr>is_used := True\<rparr>)"
    and new: "\<And>i. P \<lparr>otp_id = i, user_id = u, purpose = p, code = generateOTP rnd,
               created_at = now, expires_at = now + 300000, is_used = False, is_locked = False,
               locked_until = None, attempt_count = 0\<rparr>"
  shows "\<forall>r \<in> set (otps (snd (otp_request d now rnd u p k ip))). P r"
proof -
  obtain resp d' where res: "otp_request d now rnd u p k ip = (resp, d')"
    by (cases "otp_request d now rnd u p k ip")
  from res have "\<forall>r \<in> set (otps d'). P r"
  proof (cases rule: otp_request_result)
    case (created info d1)
    have "\<forall>r \<in> set (case existingOTP d now u p of [] \<Rightarrow> otps d
        | e # _ \<Rightarrow> map (\<lambda>r. if otp_id r = otp_id e then r\<lparr>is_used := True\<rparr> else r) (otps d)). P r"
      using rows used by (auto split: list.splits)
    with new show ?thesis by (simp add: created(9))
  qed (use rows in auto)
  with res show ?thesis by simp
qed

lemma otp_request_keys_ok:
  assumes "otps_keys_ok (otps d)"
  shows "otps_keys_ok (otps (snd (otp_request d now rnd u p k ip)))"
proof -
  obtain resp d' where res: "otp_request d now rnd u p k ip = (resp, d')"
    by (cases "otp_request d now rnd u p k ip")
  from res have "otps_keys_ok (otps d')"
    by (cases rule: otp_request_result) (use assms in auto)
  with res show ?thesis by simp
qed

lemma otp_verify_keys_ok:
  assumes "otps_keys_ok (otps d)"
  shows "otps_keys_ok (otps (snd (otp_verify d now u p c)))"
  using assms by (rule otp_verify_preserves) (auto dest!: update_otps_Inr)

lemma reachable_keys_ok: "reachable d \<Longrightarrow> otps_keys_ok (otps d)"
proof (induction rule: reachable.induct)
  case start
  show ?case by (simp add: empty_db_def otps_keys_ok_def)
next
  case (request d now rnd u p k ip)
  then show ?case by (simp add: otp_request_keys_ok)
next
  case (verify d now u p c)
  then show ?case by (simp add: otp_verify_keys_ok)
qed

lemma otp_request_idempotency_pk:
  assumes "distinct (map idempotency_key (idempotency_keys d))"
  shows "distinct (map idempotency_key (idempotency_keys (snd (otp_request d now rnd u p k ip))))"
proof -
  obtain resp d' where res: "otp_request d now rnd u p k ip = (resp, d')"
    by (cases "otp_request d now rnd u p k ip")
  from res have "distinct (map idempotency_key (idempotency_keys d'))"
    by (cases rule: otp_request_result) (use assms in auto)
  with res show ?thesis by simp
qed

lemma reachable_idempotency_pk:
  "reachable d \<Longrightarrow> distinct (map idempotency_key (idempotency_keys d))"
proof (induction rule: reachable.induct)
  case start
  show ?case by (simp add: empty_db_def)
next
  case (request d now rnd u p k ip)
  then show ?case by (simp add: otp_request_idempotency_pk)
next
  case (verify d now u p c)
  then show ?case by (subst otp_verify_frame) simp
qed

lemma reachable_at_reachable: "reachable_at d t \<Longrightarrow> reachable d"
  by (induction rule: reachable_at.induct) (auto intro: reachable.intros)

lemma distinct_map_filter_le_1:
  assumes "distinct (map f xs)"
  shows "length (filter (\<lambda>x. f x = k) xs) \<le> 1"
  using assms
proof (induction xs)
  case Nil
  show ?case by simp
next
  case (Cons x xs)
  show ?case
  proof (cases "f x = k")
    case True
    with Cons.prems have "filter (\<lambda>x. f x = k) xs = []"
      by (auto simp: filter_empty_conv image_iff)
    with True show ?thesis by simp
  next
    case False
    with Cons show ?thesis by simp
  qed
qed


section \<open>The unused records of a pair\<close>

text \<open>
  C1, as the code has it. In every state that requests to the two handlers reach from the
  empty schema, a pair (\<open>user_id\<close>, \<open>purpose\<close>) has at most one unused record that is not
  locked and at most one unused record that is locked: the unique key of \<^verbatim>\<open>otps\<close> on
  (\<open>user_id\<close>, \<open>purpose\<close>, \<open>is_used\<close>, \<open>is_locked\<close>) enforces it. The request handler marks
  an older record used only when that record is unused, unlocked and unexpired, so a locked
  record stays unused beside the new one.
\<close>

theorem reachable_single_active:
  assumes "reachable d"
  shows "length (filter (\<lambda>r. user_id r = u \<and> purpose r = p \<and> \<not> is_used r \<and> \<not> is_locked r) (otps d)) \<le> 1 \<and>
         length (filter (\<lambda>r. user_id r = u \<and> purpose r = p \<and> \<not> is_used r \<and> is_locked r) (otps d)) \<le> 1"
proof -
  from reachable_keys_ok [OF assms] have dist: "distinct (map uk_user_purpose_active (otps d))"
    by (simp add: otps_keys_ok_def)
  have "(\<lambda>r. user_id r = u \<and> purpose r = p \<and> \<not> is_used r \<and> \<not> is_locked r)
      = (\<lambda>r. uk_user_purpose_active r = (u, p, False, False))"
    and "(\<lambda>r. user_id r = u \<and> purpose r = p \<and> \<not> is_used r \<and> is_locked r)
      = (\<lambda>r. uk_user_purpose_active r = (u, p, False, True))"
    by (auto simp: uk_user_purpose_active_def)
  with distinct_map_filter_le_1 [OF dist] show ?thesis by simp
qed

theorem reachable_single_active_witness:
  "reachable scenario_reissued \<and>
   length (filter (\<lambda>r. user_id r = ''U1'' \<and> purpose r = ''login'' \<and> \<not> is_used r \<and> \<not> is_locked r)
             (otps scenario_reissued)) = 1 \<and>
   length (filter (\<lambda>r. user_id r = ''U1'' \<and> purpose r = ''login'' \<and> \<not> is_used r \<and> is_locked r)
             (otps scenario_reissued)) = 1"
  using reachable_single_active [OF scenario_reachable(3), of "''U1''" "''login''"]
  by (simp add: scenario_reachable(3) scenario_reissued_eq(2))

text \<open>
  C1 as stated fails. Three wrong codes lock the first record of \<^verbatim>\<open>U1\<close> for
  \<^verbatim>\<open>login\<close>; the next request of the pair answers 201 and the pair has two records with
  \<open>is_used = False\<close>.
\<close>

theorem two_unused_records:
  "reachable scenario_reissued \<and>
   length (filter (\<lambda>r. user_id r = ''U1'' \<and> purpose r = ''login'' \<and> \<not> is_used r)
             (otps scenario_reissued)) = 2"
  by (simp add: scenario_reachable(3) scenario_reissued_eq(2))

section \<open>Verifying the same code twice\<close>

text \<open>
  C2, at a concrete input. Two verifications with the right code for the one active record,
  one after the other, which is the order the row lock of \<^verbatim>\<open>SELECT ... FOR UPDATE\<close> gives
  two concurrent calls: the first answers \<^verbatim>\<open>verification_successful\<close>, the second
  \<^verbatim>\<open>otp_not_found\<close> and not \<^verbatim>\<open>code_used\<close>, because the handler selects only rows with
  \<open>is_used = False\<close>.
\<close>

theorem second_verify_not_found:
  "otp_verify scenario_issued 10000 ''U1'' ''login'' ''123456'' = (Verification_successful, scenario_verified) \<and>
   otp_verify scenario_verified 10000 ''U1'' ''login'' ''123456'' = (Otp_not_found, scenario_verified)"
  by (simp add: scenario_verified_eq(1)) (simp add: scenario_verified_eq(2) scenario_issued_eq(2) handler_defs)

section \<open>Superseding the record of a pair\<close>




section \<open>Wrong codes and the lockout\<close>




section \<open>Expired records\<close>




section \<open>Idempotency keys\<close>

text \<open>
  A request whose idempotency key has an unexpired record, with its fields present, answers
  500 and leaves the database as it is: the handler commits, and \<^verbatim>\<open>JSON.parse\<close> then throws
  on the stored payload.
\<close>

lemma replay_throws:
  assumes r: "r \<in> set (idempotency_keys d)" "idempotency_key r = k" "now < ik_expires_at r"
    and valid: "u \<noteq> []" "p \<noteq> []" "k \<noteq> []"
  shows "otp_request d now rnd u p k ip = (Internal_server_error, d)"
proof -
  let ?hit = "filter (\<lambda>x. idempotency_key x = k \<and> ik_expires_at x > now) (idempotency_keys d)"
  from r have "r \<in> set ?hit" by simp
  then obtain e rest where "?hit = e # rest" by (cases ?hit) auto
  with valid show ?thesis
    by (simp add: otp_request_def JSON_parse_def catch_request_def rollback_def)
qed

text \<open>
  C6, at a concrete input. The key \<^verbatim>\<open>k1\<close> was recorded at 0 with the payload of the first
  request and expires at 600 s. The same request again at 180 s, with \<^verbatim>\<open>k1\<close>, does not answer
  with the stored payload: it answers 500. The database is unchanged.
\<close>

theorem replay_answers_500:
  "map (\<lambda>r. (idempotency_key r, response_data r, ik_expires_at r)) (idempotency_keys scenario_issued)
     = [(''k1'', \<lparr>resp_otp_id = ''1'', ttl = 300, remaining_requests = 2\<rparr>, 600000)] \<and>
   otp_request scenario_issued 180000 654321 ''U1'' ''login'' ''k1'' ''1.1.1.1'' =
     (Internal_server_error, scenario_issued)"
  by (simp add: scenario_issued_eq(2) handler_defs)

text \<open>
  A key that is in the table is never recorded again: such a request does not answer 201
  and leaves the four tables as they are.
\<close>

lemma expired_key_blocks:
  assumes "k \<in> set (map idempotency_key (idempotency_keys d))"
    and "otp_request d now rnd u p k ip = (resp, d')"
  shows "(\<forall>pl. resp \<noteq> Created pl) \<and> otps d' = otps d \<and> idempotency_keys d' = idempotency_keys d \<and>
         user_rate_limits d' = user_rate_limits d \<and> ip_rate_limits d' = ip_rate_limits d"
  using assms(2)
  by (cases rule: otp_request_result) (use assms(1) in auto)

text \<open>
  C8, at a concrete input. The key \<^verbatim>\<open>k1\<close> was recorded at 0 and expired at 600 s; its row
  is still in the table. A request with \<^verbatim>\<open>k1\<close> at 601 s passes the lookup (which skips
  expired rows) and the rate limiter, inserts the new code, and is then rejected by the
  primary key of \<^verbatim>\<open>idempotency_keys\<close>: the answer is 500 and the transaction is rolled
  back.
\<close>

theorem expired_key_request_fails:
  "map (\<lambda>r. (idempotency_key r, ik_expires_at r)) (idempotency_keys scenario_verified) = [(''k1'', 600000)] \<and>
   otp_request scenario_verified 601000 654321 ''U1'' ''login'' ''k1'' ''1.1.1.1'' =
     (Internal_server_error, scenario_verified\<lparr>otps_auto_increment := 3\<rparr>)"
  by (simp add: scenario_verified_eq(2) scenario_issued_eq(2) handler_defs)

section \<open>The admission contract of the rate limiter\<close>

text \<open>
  C7, as the code has it. Let \<open>uq\<close> and \<open>iq\<close> be the entries of the user and of the address
  with a timestamp not older than 900 s. With three or more in \<open>uq\<close>, \<^verbatim>\<open>checkRateLimits\<close>
  throws the 429 whose cooldown is the ceiling, in seconds, of the oldest timestamp of \<open>uq\<close>
  plus 900 s minus now; otherwise, with eight or more in \<open>iq\<close>, the same from the oldest
  timestamp of \<open>iq\<close>; in both cases before any entry is recorded. Otherwise it records one
  entry in each table and returns the limit minus the count minus 1 for each scope.
  For the request handler, on a request that reaches the rate limiter (its fields are
  present and its idempotency key has no unexpired record): a request the limiter refuses
  answers 429 with that cooldown and leaves the database unchanged; a request the limiter
  admits answers 201 with the remaining quota of the user, 3 minus the count minus 1, and
  has recorded both entries, when no statement of its transaction is rejected; when one is,
  the transaction is rolled back, the answer is 500 and no entry is recorded.
\<close>

theorem checkRateLimits_contract:
  fixes d :: db and now :: time and userId ipAddress :: string
  defines "uq \<equiv> filter (\<lambda>r. scope_key r = userId \<and> now - 900000 \<le> request_timestamp r) (user_rate_limits d)"
    and "iq \<equiv> filter (\<lambda>r. scope_key r = ipAddress \<and> now - 900000 \<le> request_timestamp r) (ip_rate_limits d)"
  shows "(3 \<le> length uq \<longrightarrow>
            checkRateLimits d now userId ipAddress =
              Inl (Status_429 \<lceil>real_of_int (Min (request_timestamp ` set uq) + 900000 - now) / 1000\<rceil>)) \<and>
         (length uq < 3 \<and> 8 \<le> length iq \<longrightarrow>
            checkRateLimits d now userId ipAddress =
              Inl (Status_429 \<lceil>real_of_int (Min (request_timestamp ` set iq) + 900000 - now) / 1000\<rceil>)) \<and>
         (length uq < 3 \<and> length iq < 8 \<longrightarrow>
            checkRateLimits d now userId ipAddress =
              Inr (\<lparr>user_remaining = 3 - int (length uq) - 1, ip_remaining = 8 - int (length iq) - 1\<rparr>,
                   d\<lparr>user_rate_limits := user_rate_limits d @ [\<lparr>scope_key = userId, request_timestamp = now\<rparr>],
                     ip_rate_limits := ip_rate_limits d @ [\<lparr>scope_key = ipAddress, request_timestamp = now\<rparr>]\<rparr>)) \<and>
         (userId \<noteq> [] \<and> p \<noteq> [] \<and> k \<noteq> [] \<and>
          filter (\<lambda>r. idempotency_key r = k \<and> now < ik_expires_at r) (idempotency_keys d) = [] \<and>
          checkRateLimits d now userId ipAddress = Inl (Status_429 n) \<longrightarrow>
            otp_request d now rnd userId p k ipAddress = (Rate_limit_exceeded n, d)) \<and>
         (otp_request d now rnd userId p k ipAddress = (Created pl, d') \<longrightarrow>
            remaining_requests pl = 3 - int (length uq) - 1 \<and>
            user_rate_limits d' = user_rate_limits d @ [\<lparr>scope_key = userId, request_timestamp = now\<rparr>] \<and>
            ip_rate_limits d' = ip_rate_limits d @ [\<lparr>scope_key = ipAddress, request_timestamp = now\<rparr>]) \<and>
         (userId \<noteq> [] \<and> p \<noteq> [] \<and> k \<noteq> [] \<and>
          filter (\<lambda>r. idempotency_key r = k \<and> now < ik_expires_at r) (idempotency_keys d) = [] \<and>
          length uq < 3 \<and> length iq < 8 \<and> statements_accepted d now rnd userId p k \<longrightarrow>
            fst (otp_request d now rnd userId p k ipAddress) =
              Created \<lparr>resp_otp_id = String_of_nat (otps_auto_increment d), ttl = 300,
                        remaining_requests = 3 - int (length uq) - 1\<rparr> \<and>
            user_rate_limits (snd (otp_request d now rnd userId p k ipAddress)) =
              user_rate_limits d @ [\<lparr>scope_key = userId, request_timestamp = now\<rparr>] \<and>
            ip_rate_limits (snd (otp_request d now rnd userId p k ipAddress)) =
              ip_rate_limits d @ [\<lparr>scope_key = ipAddress, request_timestamp = now\<rparr>]) \<and>
         (userId \<noteq> [] \<and> p \<noteq> [] \<and> k \<noteq> [] \<and>
          filter (\<lambda>r. idempotency_key r = k \<and> now < ik_expires_at r) (idempotency_keys d) = [] \<and>
          length uq < 3 \<and> length iq < 8 \<and> \<not> statements_accepted d now rnd userId p k \<longrightarrow>
            fst (otp_request d now rnd userId p k ipAddress) = Internal_server_error \<and>
            user_rate_limits (snd (otp_request d now rnd userId p k ipAddress)) = user_rate_limits d \<and>
            ip_rate_limits (snd (otp_request d now rnd userId p k ipAddress)) = ip_rate_limits d)"
proof -
  have uq: "window_rows (user_rate_limits d) userId (now - 900000) = uq"
    and iq: "window_rows (ip_rate_limits d) ipAddress (now - 900000) = iq"
    by (simp_all add: window_rows_def uq_def iq_def)
  have cool: "cooldown_exn rows now =
      Status_429 \<lceil>real_of_int (Min (request_timestamp ` set rows) + 900000 - now) / 1000\<rceil>"
    if "rows \<noteq> []" for rows
    using cooldown_exn_Min [OF that] by (simp add: ceil_seconds_ceiling)
  have user: "checkRateLimits d now userId ipAddress = Inl (cooldown_exn uq now)" if "3 \<le> length uq"
    using that by (simp add: checkRateLimits_def Let_def uq)
  have ip: "checkRateLimits d now userId ipAddress = Inl (cooldown_exn iq now)"
    if "length uq < 3" "8 \<le> length iq"
    using that by (simp add: checkRateLimits_def Let_def uq iq)
  let ?info = "\<lparr>user_remaining = 3 - int (length uq) - 1, ip_remaining = 8 - int (length iq) - 1\<rparr>"
  let ?d1 = "d\<lparr>user_rate_limits := user_rate_limits d @ [\<lparr>scope_key = userId, request_timestamp = now\<rparr>],
             ip_rate_limits := ip_rate_limits d @ [\<lparr>scope_key = ipAddress, request_timestamp = now\<rparr>]\<rparr>"
  have admit: "checkRateLimits d now userId ipAddress = Inr (?info, ?d1)"
    if "length uq < 3" "length iq < 8"
    using that by (simp add: checkRateLimits_def Let_def uq iq)
  have limited: "3 \<le> length uq \<longrightarrow>
      checkRateLimits d now userId ipAddress =
        Inl (Status_429 \<lceil>real_of_int (Min (request_timestamp ` set uq) + 900000 - now) / 1000\<rceil>)"
  proof
    assume h: "3 \<le> length uq"
    then have "uq \<noteq> []" by auto
    with user [OF h] cool show "checkRateLimits d now userId ipAddress =
        Inl (Status_429 \<lceil>real_of_int (Min (request_timestamp ` set uq) + 900000 - now) / 1000\<rceil>)"
      by simp
  qed
  have ip_limited: "length uq < 3 \<and> 8 \<le> length iq \<longrightarrow>
      checkRateLimits d now userId ipAddress =
        Inl (Status_429 \<lceil>real_of_int (Min (request_timestamp ` set iq) + 900000 - now) / 1000\<rceil>)"
  proof
    assume h: "length uq < 3 \<and> 8 \<le> length iq"
    then have "iq \<noteq> []" by auto
    with ip h cool show "checkRateLimits d now userId ipAddress =
        Inl (Status_429 \<lceil>real_of_int (Min (request_timestamp ` set iq) + 900000 - now) / 1000\<rceil>)"
      by simp
  qed
  have rejected: "userId \<noteq> [] \<and> p \<noteq> [] \<and> k \<noteq> [] \<and>
      filter (\<lambda>r. idempotency_key r = k \<and> now < ik_expires_at r) (idempotency_keys d) = [] \<and>
      checkRateLimits d now userId ipAddress = Inl (Status_429 n) \<longrightarrow>
        otp_request d now rnd userId p k ipAddress = (Rate_limit_exceeded n, d)"
    by (simp add: otp_request_limited)
  have quota: "otp_request d now rnd userId p k ipAddress = (Created pl, d') \<longrightarrow>
      remaining_requests pl = 3 - int (length uq) - 1 \<and>
      user_rate_limits d' = user_rate_limits d @ [\<lparr>scope_key = userId, request_timestamp = now\<rparr>] \<and>
      ip_rate_limits d' = ip_rate_limits d @ [\<lparr>scope_key = ipAddress, request_timestamp = now\<rparr>]"
    using otp_request_created_quota [of d now rnd userId p k ipAddress pl d'] by (simp add: uq)
  have commits: "fst (otp_request d now rnd userId p k ipAddress) =
        Created \<lparr>resp_otp_id = String_of_nat (otps_auto_increment d), ttl = 300,
                  remaining_requests = 3 - int (length uq) - 1\<rparr> \<and>
      user_rate_limits (snd (otp_request d now rnd userId p k ipAddress)) =
        user_rate_limits d @ [\<lparr>scope_key = userId, request_timestamp = now\<rparr>] \<and>
      ip_rate_limits (snd (otp_request d now rnd userId p k ipAddress)) =
        ip_rate_limits d @ [\<lparr>scope_key = ipAddress, request_timestamp = now\<rparr>]"
    if h: "userId \<noteq> []" "p \<noteq> []" "k \<noteq> []"
      "filter (\<lambda>r. idempotency_key r = k \<and> now < ik_expires_at r) (idempotency_keys d) = []"
      "length uq < 3" "length iq < 8" "statements_accepted d now rnd userId p k"
    using otp_request_commits [OF h(1-4) admit [OF h(5,6)] h(7)] by simp
  have aborts: "fst (otp_request d now rnd userId p k ipAddress) = Internal_server_error \<and>
      user_rate_limits (snd (otp_request d now rnd userId p k ipAddress)) = user_rate_limits d \<and>
      ip_rate_limits (snd (otp_request d now rnd userId p k ipAddress)) = ip_rate_limits d"
    if h: "userId \<noteq> []" "p \<noteq> []" "k \<noteq> []"
      "filter (\<lambda>r. idempotency_key r = k \<and> now < ik_expires_at r) (idempotency_keys d) = []"
      "length uq < 3" "length iq < 8" "\<not> statements_accepted d now rnd userId p k"
    using otp_request_aborts [OF h(1-4) admit [OF h(5,6)] h(7) surjective_pairing] by simp
  from limited ip_limited admit rejected quota commits aborts show ?thesis by blast
qed

theorem checkRateLimits_contract_witness:
  "checkRateLimits (empty_db\<lparr>user_rate_limits :=
       [\<lparr>scope_key = ''U1'', request_timestamp = 180000\<rparr>,
        \<lparr>scope_key = ''U1'', request_timestamp = 0\<rparr>,
        \<lparr>scope_key = ''U1'', request_timestamp = 310000\<rparr>]\<rparr>) 400500 ''U1'' ''1.1.1.1''
     = Inl (Status_429 500) \<and>
   checkRateLimits scenario_issued 180000 ''U1'' ''1.1.1.1''
     = Inr (\<lparr>user_remaining = 1, ip_remaining = 6\<rparr>,
            scenario_issued\<lparr>user_rate_limits := user_rate_limits scenario_issued @
                [\<lparr>scope_key = ''U1'', request_timestamp = 180000\<rparr>],
              ip_rate_limits := ip_rate_limits scenario_issued @
                [\<lparr>scope_key = ''1.1.1.1'', request_timestamp = 180000\<rparr>]\<rparr>) \<and>
   otp_request (empty_db\<lparr>user_rate_limits :=
       [\<lparr>scope_key = ''U1'', request_timestamp = 180000\<rparr>,
        \<lparr>scope_key = ''U1'', request_timestamp = 0\<rparr>,
        \<lparr>scope_key = ''U1'', request_timestamp = 310000\<rparr>]\<rparr>) 400500 7 ''U1'' ''pay'' ''k4'' ''1.1.1.1''
     = (Rate_limit_exceeded 500,
        empty_db\<lparr>user_rate_limits :=
       [\<lparr>scope_key = ''U1'', request_timestamp = 180000\<rparr>,
        \<lparr>scope_key = ''U1'', request_timestamp = 0\<rparr>,
        \<lparr>scope_key = ''U1'', request_timestamp = 310000\<rparr>]\<rparr>) \<and>
   statements_accepted scenario_issued 180000 654321 ''U1'' ''login'' ''k2'' \<and>
   fst (otp_request scenario_issued 180000 654321 ''U1'' ''login'' ''k2'' ''1.1.1.1'') =
     Created \<lparr>resp_otp_id = ''2'', ttl = 300, remaining_requests = 1\<rparr> \<and>
   user_rate_limits (snd (otp_request scenario_issued 180000 654321 ''U1'' ''login'' ''k2'' ''1.1.1.1'')) =
     [\<lparr>scope_key = ''U1'', request_timestamp = 0\<rparr>, \<lparr>scope_key = ''U1'', request_timestamp = 180000\<rparr>] \<and>
   ip_rate_limits (snd (otp_request scenario_issued 180000 654321 ''U1'' ''login'' ''k2'' ''1.1.1.1'')) =
     [\<lparr>scope_key = ''1.1.1.1'', request_timestamp = 0\<rparr>,
      \<lparr>scope_key = ''1.1.1.1'', request_timestamp = 180000\<rparr>]"
proof -
  let ?d = "empty_db\<lparr>user_rate_limits :=
       [\<lparr>scope_key = ''U1'', request_timestamp = 180000\<rparr>,
        \<lparr>scope_key = ''U1'', request_timestamp = 0\<rparr>,
        \<lparr>scope_key = ''U1'', request_timestamp = 310000\<rparr>]\<rparr>"
  from checkRateLimits_contract [where d = ?d and now = 400500 and userId = "''U1''"
      and ipAddress = "''1.1.1.1''" and p = "''pay''" and k = "''k4''" and n = 500 and rnd = 7]
  have a: "checkRateLimits ?d 400500 ''U1'' ''1.1.1.1'' = Inl (Status_429 500)"
    and b: "otp_request ?d 400500 7 ''U1'' ''pay'' ''k4'' ''1.1.1.1'' = (Rate_limit_exceeded 500, ?d)"
    by (simp_all add: empty_db_def)
  have acc: "statements_accepted scenario_issued 180000 654321 ''U1'' ''login'' ''k2''"
    by (simp add: statements_accepted_def invalidated_otps_def new_otp_row_def scenario_issued_eq(2)
        handler_defs)
  from acc checkRateLimits_contract [where d = scenario_issued and now = 180000 and userId = "''U1''"
      and ipAddress = "''1.1.1.1''" and p = "''login''" and k = "''k2''" and rnd = 654321]
  have c: "checkRateLimits scenario_issued 180000 ''U1'' ''1.1.1.1''
     = Inr (\<lparr>user_remaining = 1, ip_remaining = 6\<rparr>,
            scenario_issued\<lparr>user_rate_limits := user_rate_limits scenario_issued @
                [\<lparr>scope_key = ''U1'', request_timestamp = 180000\<rparr>],
              ip_rate_limits := ip_rate_limits scenario_issued @
                [\<lparr>scope_key = ''1.1.1.1'', request_timestamp = 180000\<rparr>]\<rparr>)"
    and e: "fst (otp_request scenario_issued 180000 654321 ''U1'' ''login'' ''k2'' ''1.1.1.1'') =
     Created \<lparr>resp_otp_id = ''2'', ttl = 300, remaining_requests = 1\<rparr>"
     "user_rate_limits (snd (otp_request scenario_issued 180000 654321 ''U1'' ''login'' ''k2'' ''1.1.1.1'')) =
     [\<lparr>scope_key = ''U1'', request_timestamp = 0\<rparr>, \<lparr>scope_key = ''U1'', request_timestamp = 180000\<rparr>]"
     "ip_rate_limits (snd (otp_request scenario_issued 180000 654321 ''U1'' ''login'' ''k2'' ''1.1.1.1'')) =
     [\<lparr>scope_key = ''1.1.1.1'', request_timestamp = 0\<rparr>,
      \<lparr>scope_key = ''1.1.1.1'', request_timestamp = 180000\<rparr>]"
    by (simp_all add: scenario_issued_eq(2) String_of_nat.simps digit_char_def)
  from a b c e acc show ?thesis by blast
qed

text \<open>
  C7 as stated fails. At 301 s the user has one entry in the window and the address one:
  the limiter admits the request. The record of the pair has expired unused, so the
  \<^verbatim>\<open>INSERT\<close> of the new record is rejected by the unique key; the request answers 500
  and the transaction is rolled back: neither entry is recorded. And a request that comes
  with the key \<^verbatim>\<open>k1\<close> at 180 s, when the user has one entry in the window, never reaches
  the limiter: it records no entry either.
\<close>

theorem admitted_request_records_nothing:
  "checkRateLimits scenario_issued 301000 ''U1'' ''1.1.1.1''
     = Inr (\<lparr>user_remaining = 1, ip_remaining = 6\<rparr>,
            scenario_issued\<lparr>user_rate_limits := user_rate_limits scenario_issued @
                [\<lparr>scope_key = ''U1'', request_timestamp = 301000\<rparr>],
              ip_rate_limits := ip_rate_limits scenario_issued @
                [\<lparr>scope_key = ''1.1.1.1'', request_timestamp = 301000\<rparr>]\<rparr>) \<and>
   otp_request scenario_issued 301000 654321 ''U1'' ''login'' ''k2'' ''1.1.1.1'' =
     (Internal_server_error, scenario_issued\<lparr>otps_auto_increment := 3\<rparr>) \<and>
   user_rate_limits (scenario_issued\<lparr>otps_auto_increment := 3\<rparr>) =
     [\<lparr>scope_key = ''U1'', request_timestamp = 0\<rparr>] \<and>
   ip_rate_limits (scenario_issued\<lparr>otps_auto_increment := 3\<rparr>) =
     [\<lparr>scope_key = ''1.1.1.1'', request_timestamp = 0\<rparr>] \<and>
   length (filter (\<lambda>r. scope_key r = ''U1'' \<and> 180000 - 900000 \<le> request_timestamp r)
             (user_rate_limits scenario_issued)) = 1 \<and>
   otp_request scenario_issued 180000 654321 ''U1'' ''login'' ''k1'' ''1.1.1.1'' =
     (Internal_server_error, scenario_issued)"
  by (simp add: scenario_issued_eq(2) handler_defs)

section \<open>Coherence of the lock fields\<close>

text \<open>
  C10. In every reachable state a locked record has a \<open>locked_until\<close>. The handler relies on
  it: a locked record without \<open>locked_until\<close> that has not expired is verified as if it were
  not locked.
\<close>

theorem reachable_lock_coherent:
  "(reachable d \<longrightarrow> (\<forall>r \<in> set (otps d). is_locked r \<longrightarrow> locked_until r \<noteq> None)) \<and>
   (u \<noteq> [] \<and> p \<noteq> [] \<and> c \<noteq> [] \<and> select_latest_unused d' u p = Some otp \<and>
    \<not> expires_at otp < now \<and> is_locked otp \<and> locked_until otp = None
      \<longrightarrow> otp_verify d' now u p c = verify_code d' d' now otp c)"
proof (intro conjI impI)
  assume "reachable d"
  then show "\<forall>r \<in> set (otps d). is_locked r \<longrightarrow> locked_until r \<noteq> None"
  proof (induction rule: reachable.induct)
    case start
    show ?case by (simp add: empty_db_def)
  next
    case (request d now rnd u p k ip)
    then show ?case by (intro otp_request_rows) simp_all
  next
    case (verify d now u p c)
    from verify.IH show ?case
      by (rule otp_verify_preserves) (erule update_otps_rows; simp)+
  qed
next
  assume "u \<noteq> [] \<and> p \<noteq> [] \<and> c \<noteq> [] \<and> select_latest_unused d' u p = Some otp \<and>
    \<not> expires_at otp < now \<and> is_locked otp \<and> locked_until otp = None"
  then show "otp_verify d' now u p c = verify_code d' d' now otp c"
    by (intro otp_verify_active) simp_all
qed

theorem reachable_lock_coherent_witness:
  "reachable scenario_locked \<and>
   map is_locked (otps scenario_locked) = [True] \<and>
   map locked_until (otps scenario_locked) = [Some 603000] \<and>
   fst (otp_verify (scenario_locked\<lparr>otps := map (\<lambda>r. r\<lparr>locked_until := None\<rparr>) (otps scenario_locked)\<rparr>)
          5000 ''U1'' ''login'' ''123456'') = Verification_successful"
proof -
  note coherent = reachable_lock_coherent [where d = scenario_locked and u = "''U1''" and p = "''login''"
      and c = "''123456''" and now = 5000
      and d' = "scenario_locked\<lparr>otps := map (\<lambda>r. r\<lparr>locked_until := None\<rparr>) (otps scenario_locked)\<rparr>"
      and otp = "\<lparr>otp_id = 1, user_id = ''U1'', purpose = ''login'', code = ''123456'',
       created_at = 0, expires_at = 300000, is_used = False, is_locked = True,
       locked_until = None, attempt_count = 3\<rparr>"]
  have r: "reachable scenario_locked" by (rule scenario_reachable(2))
  from coherent r have "\<forall>r \<in> set (otps scenario_locked). is_locked r \<longrightarrow> locked_until r \<noteq> None"
    by blast
  then have "map is_locked (otps scenario_locked) = [True] \<and>
     map locked_until (otps scenario_locked) = [Some 603000] \<and>
     fst (otp_verify (scenario_locked\<lparr>otps := map (\<lambda>r. r\<lparr>locked_until := None\<rparr>) (otps scenario_locked)\<rparr>)
          5000 ''U1'' ''login'' ''123456'') = Verification_successful"
    by (simp add: scenario_locked_eq scenario_issued_eq(2) handler_defs)
  with r show ?thesis by blast
qed

end
